theory Spec2Isabelle
  imports Complex_Main
begin

section \<open>JavaScript arrays and numbers\<close>

text \<open>
  The sprite generator of \<^verbatim>\<open>src/Mixel.ts\<close> keeps its structural grid and its pixel
  buffer in plain JavaScript arrays. An array is modelled as a list of slots; a slot is
  \<open>None\<close> when it is a hole or holds \<^verbatim>\<open>undefined\<close>. Reading past the end gives
  \<^verbatim>\<open>undefined\<close>, assigning past the end extends the array with holes. The list is
  exact for indices below \<open>2^32 - 1\<close>, the array indices of JavaScript; what is stated
  about the length of the pixel buffer carries that bound.

  Numbers are ideal: lengths, coordinates and indices are naturals, structural codes are
  integers, random draws and colour channels are reals (no floating-point rounding).
\<close>

definition js_get :: "'a option list \<Rightarrow> nat \<Rightarrow> 'a option" where
  "js_get xs i = (if i < length xs then xs ! i else None)"

definition js_set :: "'a option list \<Rightarrow> nat \<Rightarrow> 'a option \<Rightarrow> 'a option list" where
  "js_set xs i v =
     (if i < length xs then xs[i := v]
      else xs @ replicate (i - length xs) None @ [v])"

text \<open>\<^verbatim>\<open>Math.round\<close> rounds half up; \<^verbatim>\<open>%\<close> truncates towards zero.\<close>

definition js_round :: "real \<Rightarrow> int" where
  "js_round x = \<lfloor>x + 1 / 2\<rfloor>"

definition js_rem :: "int \<Rightarrow> int \<Rightarrow> int" where
  "js_rem a b = sgn a * (\<bar>a\<bar> mod \<bar>b\<bar>)"

section \<open>Data model\<close>

text \<open>The numeric enum \<^verbatim>\<open>SpriteStructure\<close>.\<close>

type_synonym SpriteStructure = int

definition AlwaysBorder :: SpriteStructure where [simp]: "AlwaysBorder = - 1"
definition Empty :: SpriteStructure where [simp]: "Empty = 0"
definition RandomlyEmptyBody :: SpriteStructure where [simp]: "RandomlyEmptyBody = 1"
definition RandomlyBorderBody :: SpriteStructure where [simp]: "RandomlyBorderBody = 2"

text \<open>
  The interface \<^verbatim>\<open>Mask\<close>. Its fields carry the prefix \<open>mask_\<close> because the class
  \<^verbatim>\<open>Sprite\<close> has members \<^verbatim>\<open>data\<close>, \<^verbatim>\<open>width\<close>, \<^verbatim>\<open>height\<close>, \<^verbatim>\<open>mirrorX\<close> and
  \<^verbatim>\<open>mirrorY\<close> of its own. An absent mirror flag is falsy, hence \<open>False\<close>.
\<close>

record Mask =
  mask_data :: "SpriteStructure list"
  mask_width :: nat
  mask_height :: nat
  mask_mirrorX :: bool
  mask_mirrorY :: bool

record RGB =
  rgb_r :: real
  rgb_g :: real
  rgb_b :: real

text \<open>
  A custom \<^verbatim>\<open>randomSampleCallback\<close> is any JavaScript function of the coordinates: it
  may read and change whatever it can reach outside the sprite (a counter, the clock,
  \<^verbatim>\<open>Math.random\<close>). That environment is a value of type \<open>world\<close>, which the callback
  receives and returns. The callback is taken to return, and to return a structural
  code, as its type \<^verbatim>\<open>(x: number, y: number) => number\<close> says.
\<close>

type_synonym world = nat

type_synonym callback = "nat \<Rightarrow> nat \<Rightarrow> world \<Rightarrow> SpriteStructure \<times> world"

text \<open>
  The interface \<^verbatim>\<open>SpriteOptions\<close> as the caller passes it: every field is optional
  (prefix \<open>opt_\<close>). An absent \<^verbatim>\<open>opts\<close> argument is the record with every field \<open>None\<close>.
\<close>

record SpriteOptions =
  opt_colored :: "bool option"
  opt_edgeBrightness :: "real option"
  opt_colorVariations :: "real option"
  opt_brightnessNoise :: "real option"
  opt_saturation :: "real option"
  opt_seed :: "string option"
  opt_tint :: "RGB option"
  opt_randomSampleCallback :: "callback option"

text \<open>
  The options after \<^verbatim>\<open>merge({}, defaults, opts)\<close>: the five plain settings always have
  a value; seed and tint have no default. A missing callback stands for the default
  sampling closure of the constructor, which reads the grid and the generator of the
  sprite under construction.
\<close>

record Options =
  colored :: bool
  edgeBrightness :: real
  colorVariations :: real
  brightnessNoise :: real
  saturation :: real
  seed :: "string option"
  tint :: "RGB option"
  randomSampleCallback :: "callback option"

definition merge_defaults :: "SpriteOptions \<Rightarrow> Options" where
  "merge_defaults opts =
     \<lparr> colored = (case opt_colored opts of None \<Rightarrow> False | Some c \<Rightarrow> c),
       edgeBrightness = (case opt_edgeBrightness opts of None \<Rightarrow> 3 / 10 | Some e \<Rightarrow> e),
       colorVariations = (case opt_colorVariations opts of None \<Rightarrow> 2 / 10 | Some c \<Rightarrow> c),
       brightnessNoise = (case opt_brightnessNoise opts of None \<Rightarrow> 3 / 10 | Some n \<Rightarrow> n),
       saturation = (case opt_saturation opts of None \<Rightarrow> 5 / 10 | Some s \<Rightarrow> s),
       seed = opt_seed opts,
       tint = opt_tint opts,
       randomSampleCallback = opt_randomSampleCallback opts \<rparr>"

text \<open>
  The generator comes from the library \<^verbatim>\<open>seedrandom\<close>, which is not part of the
  repository. Its contract is taken as two parameters: \<open>seeded\<close> gives, for a seed, the
  stream every generator created from that seed produces; \<open>entropy\<close> is the stream an
  unseeded generator happens to produce, which differs from one construction to the next.
\<close>

definition SeedRandom :: "(string \<Rightarrow> nat \<Rightarrow> real) \<Rightarrow> (nat \<Rightarrow> real) \<Rightarrow> string option \<Rightarrow> nat \<Rightarrow> real" where
  "SeedRandom seeded entropy sd = (case sd of None \<Rightarrow> entropy | Some k \<Rightarrow> seeded k)"

text \<open>
  The class \<^verbatim>\<open>Sprite\<close>. The stateful generator \<^verbatim>\<open>this.rng\<close> is its stream together
  with the number of draws made so far. Two components are not fields of the class:
  \<open>assigned\<close> is the trace of the indices of \<^verbatim>\<open>imageData\<close> assigned so far, in order,
  and \<open>world\<close> is the current state of the environment of a custom callback.
\<close>

record Sprite =
  mask :: Mask
  spriteOpts :: Options
  data :: "SpriteStructure option list"
  imageData :: "real option list"
  rng :: "nat \<Rightarrow> real"
  drawn :: nat
  assigned :: "nat list"
  world :: world

datatype error = RangeError | TypeError

definition rng_next :: "Sprite \<Rightarrow> real \<times> Sprite" where
  "rng_next s = (rng s (drawn s), s\<lparr>drawn := Suc (drawn s)\<rparr>)"

definition width :: "Sprite \<Rightarrow> nat" where
  "width s = mask_width (mask s) * (if mask_mirrorX (mask s) then 2 else 1)"

definition height :: "Sprite \<Rightarrow> nat" where
  "height s = mask_height (mask s) * (if mask_mirrorY (mask s) then 2 else 1)"

definition setData :: "nat \<Rightarrow> nat \<Rightarrow> SpriteStructure option \<Rightarrow> Sprite \<Rightarrow> Sprite" where
  "setData x y v s = s\<lparr>data := js_set (data s) (y * width s + x) v\<rparr>"

definition getData :: "nat \<Rightarrow> nat \<Rightarrow> Sprite \<Rightarrow> SpriteStructure option" where
  "getData x y s = js_get (data s) (y * width s + x)"

section \<open>The pipeline\<close>

text \<open>
  A \<^verbatim>\<open>for\<close> loop over \<open>0 \<le> k < n\<close> is a \<open>fold\<close> over \<open>[0..<n]\<close>; the loops of
  \<^verbatim>\<open>calculateColors\<close>, whose body can throw, stop at the first error.
\<close>

fun forEach :: "('a \<Rightarrow> 's \<Rightarrow> error + 's) \<Rightarrow> 'a list \<Rightarrow> 's \<Rightarrow> error + 's" where
  "forEach f [] s = Inr s"
| "forEach f (x # xs) s = (case f x s of Inl e \<Rightarrow> Inl e | Inr s' \<Rightarrow> forEach f xs s')"

definition applyMask :: "Sprite \<Rightarrow> Sprite" where
  "applyMask s =
     (let h = mask_height (mask s); w = mask_width (mask s) in
      fold (\<lambda>y. fold (\<lambda>x. setData x y (js_get (map Some (mask_data (mask s))) (y * w + x))) [0..<w])
        [0..<h] s)"

text \<open>The default \<^verbatim>\<open>randomSampleCallback\<close> of the constructor.\<close>

definition defaultRandomSample :: "nat \<Rightarrow> nat \<Rightarrow> Sprite \<Rightarrow> SpriteStructure option \<times> Sprite" where
  "defaultRandomSample x y s =
     (let val = getData x y s in
      if val = Some RandomlyEmptyBody then
        (let (a, s1) = rng_next s in (Some (RandomlyEmptyBody * js_round a), s1))
      else if val = Some RandomlyBorderBody then
        (let (a, s1) = rng_next s in
         (if a > 1 / 2 then Some RandomlyEmptyBody else Some AlwaysBorder, s1))
      else (val, s))"

definition sampleCell :: "nat \<Rightarrow> nat \<Rightarrow> Sprite \<Rightarrow> Sprite" where
  "sampleCell x y s =
     (let (v, s1) = (case randomSampleCallback (spriteOpts s) of
                       None \<Rightarrow> defaultRandomSample x y s
                     | Some cb \<Rightarrow>
                         (let (c, w) = cb x y (world s) in (Some c, s\<lparr>world := w\<rparr>)))
      in setData x y v s1)"

definition generateRandomSample :: "Sprite \<Rightarrow> Sprite" where
  "generateRandomSample s =
     (let h = height s; w = width s in
      fold (\<lambda>y. fold (\<lambda>x. sampleCell x y) [0..<w]) [0..<h] s)"

definition mirrorX :: "Sprite \<Rightarrow> Sprite" where
  "mirrorX s =
     (let h = height s; w = width s div 2 in
      fold (\<lambda>y. fold (\<lambda>x t. setData (width t - x - 1) y (getData x y t) t) [0..<w]) [0..<h] s)"

definition mirrorY :: "Sprite \<Rightarrow> Sprite" where
  "mirrorY s =
     (let h = height s div 2; w = width s in
      fold (\<lambda>y. fold (\<lambda>x t. setData x (height t - y - 1) (getData x y t) t) [0..<w]) [0..<h] s)"

text \<open>
  The body of the loops of \<^verbatim>\<open>generateEdges\<close>. The guard \<^verbatim>\<open>y - 1 >= 0\<close> is \<open>1 \<le> y\<close>
  on naturals.
\<close>

definition edgeStep :: "nat \<Rightarrow> nat \<Rightarrow> nat \<Rightarrow> nat \<Rightarrow> Sprite \<Rightarrow> Sprite" where
  "edgeStep w h x y s =
     (let val = getData x y s in
      if val = Some AlwaysBorder \<or> val = Some Empty then s
      else
        (let s1 = (if 1 \<le> y \<and> getData x (y - 1) s = Some Empty
                   then setData x (y - 1) (Some AlwaysBorder) s else s);
             s2 = (if y + 1 < h \<and> getData x (y + 1) s1 = Some Empty
                   then setData x (y + 1) (Some AlwaysBorder) s1 else s1);
             s3 = (if 1 \<le> x \<and> getData (x - 1) y s2 = Some Empty
                   then setData (x - 1) y (Some AlwaysBorder) s2 else s2);
             s4 = (if x + 1 < w \<and> getData (x + 1) y s3 = Some Empty
                   then setData (x + 1) y (Some AlwaysBorder) s3 else s3)
         in s4))"

definition generateEdges :: "Sprite \<Rightarrow> Sprite" where
  "generateEdges s =
     (let h = height s; w = width s in
      fold (\<lambda>y. fold (\<lambda>x. edgeStep w h x y) [0..<w]) [0..<h] s)"

text \<open>
  \<^verbatim>\<open>hslToRgb\<close>: the \<^verbatim>\<open>switch\<close> has no default, so for a remainder outside \<open>0..5\<close>
  the function returns \<^verbatim>\<open>undefined\<close>.
\<close>

definition hslToRgb :: "real \<Rightarrow> real \<Rightarrow> real \<Rightarrow> RGB option" where
  "hslToRgb h s l =
     (let i = \<lfloor>h * 6\<rfloor>;
          f = h * 6 - of_int i;
          p = l * (1 - s);
          q = l * (1 - f * s);
          t = l * (1 - (1 - f) * s);
          k = js_rem i 6
      in if k = 0 then Some \<lparr>rgb_r = l, rgb_g = t, rgb_b = p\<rparr>
         else if k = 1 then Some \<lparr>rgb_r = q, rgb_g = l, rgb_b = p\<rparr>
         else if k = 2 then Some \<lparr>rgb_r = p, rgb_g = l, rgb_b = t\<rparr>
         else if k = 3 then Some \<lparr>rgb_r = p, rgb_g = q, rgb_b = l\<rparr>
         else if k = 4 then Some \<lparr>rgb_r = t, rgb_g = p, rgb_b = l\<rparr>
         else if k = 5 then Some \<lparr>rgb_r = l, rgb_g = p, rgb_b = q\<rparr>
         else None)"

text \<open>
  The colour-change signal at the head of each gradient line: a comma expression of
  three draws, whose value is its last operand.
\<close>

definition isNewColor :: "Sprite \<Rightarrow> real \<times> Sprite" where
  "isNewColor s =
     (let (a, s1) = rng_next s; d1 = a * 2 - 1;
          (b, s2) = rng_next s1; d2 = b * 2 - 1;
          (c, s3) = rng_next s2; d3 = c * 2 - 1
      in (\<bar>d3 / 3\<bar>, s3))"

text \<open>
  The comparison below is made on reals. In the code both sides are doubles, and rounding
  can change its outcome for draws next to the threshold; nothing stated about the pixel
  buffer depends on which way it goes.
\<close>

definition nextHue :: "real \<Rightarrow> Sprite \<Rightarrow> real \<times> Sprite" where
  "nextHue hue s =
     (let (n, s1) = isNewColor s in
      if n > 1 - colorVariations (spriteOpts s1) then rng_next s1 else (hue, s1))"

text \<open>
  The writes of the inner loop body to \<^verbatim>\<open>imageData\<close>: four assignments, then three
  compound assignments \<^verbatim>\<open>*=\<close> when the cell is not empty (each reads the slot just
  assigned). Every assignment is recorded in the trace.
\<close>

definition assignImage :: "nat \<Rightarrow> real option \<Rightarrow> Sprite \<Rightarrow> Sprite" where
  "assignImage i v s = s\<lparr>imageData := js_set (imageData s) i v, assigned := assigned s @ [i]\<rparr>"

definition storePixel :: "nat \<Rightarrow> RGB \<Rightarrow> bool \<Rightarrow> RGB \<Rightarrow> Sprite \<Rightarrow> Sprite" where
  "storePixel index c tinted tintMask s =
     (let s1 = assignImage (index + 0) (Some (rgb_r c * 255)) s;
          s2 = assignImage (index + 1) (Some (rgb_g c * 255)) s1;
          s3 = assignImage (index + 2) (Some (rgb_b c * 255)) s2;
          s4 = assignImage (index + 3) (Some 255) s3
      in if tinted then
           (let s5 = assignImage (index + 0)
                       (map_option (\<lambda>a. a * rgb_r tintMask) (js_get (imageData s4) (index + 0))) s4;
                s6 = assignImage (index + 1)
                       (map_option (\<lambda>a. a * rgb_g tintMask) (js_get (imageData s5) (index + 1))) s5;
                s7 = assignImage (index + 2)
                       (map_option (\<lambda>a. a * rgb_b tintMask) (js_get (imageData s6) (index + 2))) s6
            in s7)
         else s4)"

text \<open>
  The colour of one cell. In the coloured branch the destructuring of an
  \<^verbatim>\<open>undefined\<close> result of \<^verbatim>\<open>hslToRgb\<close> throws a \<^verbatim>\<open>TypeError\<close>.
\<close>

definition cellColor :: "nat \<Rightarrow> nat \<Rightarrow> real \<Rightarrow> real \<Rightarrow> SpriteStructure option \<Rightarrow> Sprite \<Rightarrow> error + RGB \<times> Sprite" where
  "cellColor u ulen sat hue val s =
     (if val \<noteq> Some Empty then
        (if colored (spriteOpts s) then
           (let (a, s1) = rng_next s;
                brightness = sin (real u / real ulen * pi) * (1 - brightnessNoise (spriteOpts s))
                             + a + brightnessNoise (spriteOpts s)
            in case hslToRgb hue sat brightness of
                 None \<Rightarrow> Inl TypeError
               | Some c \<Rightarrow>
                   Inr (if val = Some AlwaysBorder
                        then \<lparr>rgb_r = rgb_r c * edgeBrightness (spriteOpts s),
                              rgb_g = rgb_g c * edgeBrightness (spriteOpts s),
                              rgb_b = rgb_b c * edgeBrightness (spriteOpts s)\<rparr>
                        else c, s1))
         else Inr (if val = Some AlwaysBorder
                   then \<lparr>rgb_r = 0, rgb_g = 0, rgb_b = 0\<rparr>
                   else \<lparr>rgb_r = 1, rgb_g = 1, rgb_b = 1\<rparr>, s))
      else Inr (\<lparr>rgb_r = 1, rgb_g = 1, rgb_b = 1\<rparr>, s))"

definition pixelIndex :: "bool \<Rightarrow> nat \<Rightarrow> nat \<Rightarrow> nat \<Rightarrow> nat \<Rightarrow> nat" where
  "pixelIndex isVerticalGradient ulen vlen u v =
     (if isVerticalGradient then (u * vlen + v) * 4 else (v * ulen + u) * 4)"

definition pixelStep :: "bool \<Rightarrow> nat \<Rightarrow> nat \<Rightarrow> real \<Rightarrow> real \<Rightarrow> nat \<Rightarrow> nat \<Rightarrow> Sprite \<Rightarrow> error + Sprite" where
  "pixelStep isVerticalGradient ulen vlen sat hue u v s =
     (let val = (if isVerticalGradient then getData v u s else getData u v s);
          index = pixelIndex isVerticalGradient ulen vlen u v;
          tintMask = (case tint (spriteOpts s) of
                        None \<Rightarrow> \<lparr>rgb_r = 1, rgb_g = 1, rgb_b = 1\<rparr>
                      | Some t \<Rightarrow> t)
      in case cellColor u ulen sat hue val s of
           Inl e \<Rightarrow> Inl e
         | Inr (c, s1) \<Rightarrow>
             Inr (storePixel index c (val \<noteq> Some Empty) tintMask s1))"

definition gradientStep :: "bool \<Rightarrow> nat \<Rightarrow> nat \<Rightarrow> real \<Rightarrow> nat \<Rightarrow> real \<times> Sprite \<Rightarrow> error + real \<times> Sprite" where
  "gradientStep isVerticalGradient ulen vlen sat u hs =
     (let (hue, s1) = nextHue (fst hs) (snd hs) in
      case forEach (pixelStep isVerticalGradient ulen vlen sat hue u) [0..<vlen] s1 of
        Inl e \<Rightarrow> Inl e
      | Inr s2 \<Rightarrow> Inr (hue, s2))"

definition calculateColors :: "Sprite \<Rightarrow> error + Sprite" where
  "calculateColors s =
     (let (a, s1) = rng_next s;
          isVerticalGradient = (a > 1 / 2);
          (b, s2) = rng_next s1;
          sat = max (min (b * saturation (spriteOpts s2)) 1) 0;
          (hue, s3) = rng_next s2;
          ulen = (if isVerticalGradient then height s3 else width s3);
          vlen = (if isVerticalGradient then width s3 else height s3)
      in case forEach (gradientStep isVerticalGradient ulen vlen sat) [0..<ulen] (hue, s3) of
           Inl e \<Rightarrow> Inl e
         | Inr hs \<Rightarrow> Inr (snd hs))"

definition init :: "Sprite \<Rightarrow> error + Sprite" where
  "init s =
     (let s1 = applyMask s;
          s2 = generateRandomSample s1;
          s3 = (if mask_mirrorX (mask s2) then mirrorX s2 else s2);
          s4 = (if mask_mirrorY (mask s3) then mirrorY s3 else s3);
          s5 = generateEdges s4
      in calculateColors s5)"

text \<open>
  The constructor. Besides the mask and the options it is given what one construction
  does not share with the next: the entropy of an unseeded generator and the state \<open>w0\<close>
  of the environment of a custom callback. Its result is the list of warnings written
  to the console and the outcome: the finished sprite, or the error thrown.
  \<^verbatim>\<open>Array(n)\<close> throws a \<^verbatim>\<open>RangeError\<close> for a length of \<open>2^32\<close> or more, before anything
  is written.
\<close>

definition widthWarning :: string where
  "widthWarning = ''Sprite Warning: Width is not evenly divisible by 2, mirroring X will look odd.''"

definition heightWarning :: string where
  "heightWarning = ''Sprite Warning: Height is not evenly divisible by 2, mirroring Y will look odd.''"

definition newSprite :: "(string \<Rightarrow> nat \<Rightarrow> real) \<Rightarrow> (nat \<Rightarrow> real) \<Rightarrow> world \<Rightarrow> Mask \<Rightarrow> SpriteOptions \<Rightarrow> string list \<times> (error + Sprite)" where
  "newSprite seeded entropy w0 m opts =
     (let w = mask_width m * (if mask_mirrorX m then 2 else 1);
          h = mask_height m * (if mask_mirrorY m then 2 else 1)
      in if 2 ^ 32 \<le> w * h then ([], Inl RangeError)
         else
           (let warnings =
                  (if w mod 2 \<noteq> 0 \<and> mask_mirrorX m then [widthWarning] else []) @
                  (if h mod 2 \<noteq> 0 \<and> mask_mirrorY m then [heightWarning] else []);
                o1 = merge_defaults opts;
                s = \<lparr> mask = m, spriteOpts = o1,
                      data = replicate (w * h) (Some AlwaysBorder),
                      imageData = [],
                      rng = SeedRandom seeded entropy (seed o1),
                      drawn = 0, assigned = [], world = w0 \<rparr>
            in (warnings, init s)))"

section \<open>The two-buffer variant of edge synthesis\<close>

text \<open>
  The variant the specification contrasts \<^verbatim>\<open>generateEdges\<close> with: the same scan and
  the same neighbour rule, but every read (the cell itself and its four neighbours) is
  made on a snapshot \<open>s0\<close> of the sprite taken before the pass, and only the writes go
  to the working grid.
\<close>

definition edgeStepSnapshot :: "Sprite \<Rightarrow> nat \<Rightarrow> nat \<Rightarrow> nat \<Rightarrow> nat \<Rightarrow> Sprite \<Rightarrow> Sprite" where
  "edgeStepSnapshot s0 w h x y s =
     (let val = getData x y s0 in
      if val = Some AlwaysBorder \<or> val = Some Empty then s
      else
        (let s1 = (if 1 \<le> y \<and> getData x (y - 1) s0 = Some Empty
                   then setData x (y - 1) (Some AlwaysBorder) s else s);
             s2 = (if y + 1 < h \<and> getData x (y + 1) s0 = Some Empty
                   then setData x (y + 1) (Some AlwaysBorder) s1 else s1);
             s3 = (if 1 \<le> x \<and> getData (x - 1) y s0 = Some Empty
                   then setData (x - 1) y (Some AlwaysBorder) s2 else s2);
             s4 = (if x + 1 < w \<and> getData (x + 1) y s0 = Some Empty
                   then setData (x + 1) y (Some AlwaysBorder) s3 else s3)
         in s4))"

definition generateEdgesSnapshot :: "Sprite \<Rightarrow> Sprite" where
  "generateEdgesSnapshot s =
     (let h = height s; w = width s in
      fold (\<lambda>y. fold (\<lambda>x. edgeStepSnapshot s w h x y) [0..<w]) [0..<h] s)"

section \<open>Auxiliary notions\<close>

text \<open>
  Notions used only to state and prove properties: the scan order of a nested loop,
  body cells, the indices a body cell marks, a single conditional mark, and functions
  that change nothing but the grid.
\<close>

definition scan :: "nat \<Rightarrow> nat \<Rightarrow> (nat \<times> nat) list" where
  "scan w h = concat (map (\<lambda>y. map (\<lambda>x. (x, y)) [0..<w]) [0..<h])"

definition isBody :: "nat \<Rightarrow> nat \<Rightarrow> Sprite \<Rightarrow> bool" where
  "isBody x y s = (getData x y s \<noteq> Some AlwaysBorder \<and> getData x y s \<noteq> Some Empty)"

definition edgeTargets :: "nat \<Rightarrow> nat \<Rightarrow> nat \<Rightarrow> nat \<Rightarrow> nat \<Rightarrow> nat set" where
  "edgeTargets W w h x y =
     {j. (1 \<le> y \<and> j = (y - 1) * W + x) \<or> (y + 1 < h \<and> j = (y + 1) * W + x) \<or>
         (1 \<le> x \<and> j = y * W + (x - 1)) \<or> (x + 1 < w \<and> j = y * W + (x + 1))}"

definition mark :: "bool \<Rightarrow> nat \<Rightarrow> Sprite \<Rightarrow> Sprite" where
  "mark c i s = (if c \<and> js_get (data s) i = Some Empty then s\<lparr>data := js_set (data s) i (Some AlwaysBorder)\<rparr> else s)"

definition markFrom :: "Sprite \<Rightarrow> bool \<Rightarrow> nat \<Rightarrow> Sprite \<Rightarrow> Sprite" where
  "markFrom s0 c i s =
     (if c \<and> js_get (data s0) i = Some Empty then s\<lparr>data := js_set (data s) i (Some AlwaysBorder)\<rparr> else s)"

definition dataOnly :: "(Sprite \<Rightarrow> Sprite) \<Rightarrow> bool" where
  "dataOnly f = (\<forall>s. \<exists>d. f s = s\<lparr>data := d\<rparr>)"

definition adjacent :: "nat \<Rightarrow> nat \<Rightarrow> nat \<Rightarrow> nat \<Rightarrow> bool" where
  "adjacent x y x' y' =
     ((x' = x \<and> (y' = y + 1 \<or> y = y' + 1)) \<or> (y' = y \<and> (x' = x + 1 \<or> x = x' + 1)))"

definition structuralCodes :: "SpriteStructure option set" where
  "structuralCodes = {Some AlwaysBorder, Some Empty, Some RandomlyEmptyBody, Some RandomlyBorderBody}"

definition plainOptions :: Options where
  "plainOptions = merge_defaults \<lparr> opt_colored = None, opt_edgeBrightness = None,
     opt_colorVariations = None, opt_brightnessNoise = None, opt_saturation = None,
     opt_seed = None, opt_tint = None, opt_randomSampleCallback = None \<rparr>"

definition columnSprite :: Sprite where
  "columnSprite =
     \<lparr> mask = \<lparr> mask_data = [Empty, RandomlyBorderBody, Empty], mask_width = 1, mask_height = 3,
                 mask_mirrorX = False, mask_mirrorY = False \<rparr>,
       spriteOpts = plainOptions,
       data = [Some Empty, Some RandomlyBorderBody, Some Empty],
       imageData = [], rng = (\<lambda>n. 0), drawn = 0, assigned = [], world = 0 \<rparr>"

definition cellIndex :: "bool \<Rightarrow> nat \<Rightarrow> nat \<Rightarrow> nat \<Rightarrow> nat \<Rightarrow> nat" where
  "cellIndex isVerticalGradient ulen vlen u v =
     (if isVerticalGradient then u * vlen + v else v * ulen + u)"

definition storePixelData :: "nat \<Rightarrow> RGB \<Rightarrow> bool \<Rightarrow> RGB \<Rightarrow> real option list \<Rightarrow> real option list" where
  "storePixelData index c tinted tintMask img =
     (let i1 = js_set img (index + 0) (Some (rgb_r c * 255));
          i2 = js_set i1 (index + 1) (Some (rgb_g c * 255));
          i3 = js_set i2 (index + 2) (Some (rgb_b c * 255));
          i4 = js_set i3 (index + 3) (Some 255)
      in if tinted then
           (let i5 = js_set i4 (index + 0) (map_option (\<lambda>a. a * rgb_r tintMask) (js_get i4 (index + 0)));
                i6 = js_set i5 (index + 1) (map_option (\<lambda>a. a * rgb_g tintMask) (js_get i5 (index + 1)));
                i7 = js_set i6 (index + 2) (map_option (\<lambda>a. a * rgb_b tintMask) (js_get i6 (index + 2)))
            in i7)
         else i4)"

definition pixelWrites :: "nat \<Rightarrow> bool \<Rightarrow> nat list" where
  "pixelWrites index tinted =
     [index + 0, index + 1, index + 2, index + 3] @
     (if tinted then [index + 0, index + 1, index + 2] else [])"

definition pixelChannel :: "RGB \<Rightarrow> bool \<Rightarrow> RGB \<Rightarrow> nat \<Rightarrow> real" where
  "pixelChannel c tinted tintMask k =
     (if k = 0 then (if tinted then rgb_r c * 255 * rgb_r tintMask else rgb_r c * 255)
      else if k = 1 then (if tinted then rgb_g c * 255 * rgb_g tintMask else rgb_g c * 255)
      else if k = 2 then (if tinted then rgb_b c * 255 * rgb_b tintMask else rgb_b c * 255)
      else 255)"

definition paints :: "(nat \<Rightarrow> real \<Rightarrow> bool) \<Rightarrow> nat set \<Rightarrow> Sprite \<Rightarrow> Sprite \<Rightarrow> bool" where
  "paints V P s s' =
     (mask s' = mask s \<and> spriteOpts s' = spriteOpts s \<and> data s' = data s \<and> rng s' = rng s \<and>
      (\<forall>j. if j div 4 \<in> P then (\<exists>x. js_get (imageData s') j = Some x \<and> V j x)
           else js_get (imageData s') j = js_get (imageData s) j) \<and>
      (\<forall>N. length (imageData s) \<le> N \<and> (\<forall>p \<in> P. 4 * p + 4 \<le> N) \<longrightarrow> length (imageData s') \<le> N))"

definition plainColor :: "SpriteStructure option \<Rightarrow> RGB" where
  "plainColor val =
     (if val = Some AlwaysBorder then \<lparr>rgb_r = 0, rgb_g = 0, rgb_b = 0\<rparr>
      else \<lparr>rgb_r = 1, rgb_g = 1, rgb_b = 1\<rparr>)"

definition tintOf :: "Options \<Rightarrow> RGB" where
  "tintOf opts = (case tint opts of None \<Rightarrow> \<lparr>rgb_r = 1, rgb_g = 1, rgb_b = 1\<rparr> | Some t \<Rightarrow> t)"

definition plainChannel :: "Options \<Rightarrow> SpriteStructure option \<Rightarrow> nat \<Rightarrow> real" where
  "plainChannel opts val k = pixelChannel (plainColor val) (val \<noteq> Some Empty) (tintOf opts) k"

definition plainV :: "SpriteStructure option list \<Rightarrow> Options \<Rightarrow> nat \<Rightarrow> real \<Rightarrow> bool" where
  "plainV d opts j x = (x = plainChannel opts (js_get d (j div 4)) (j mod 4))"

definition keepsImage :: "(Sprite \<Rightarrow> Sprite) \<Rightarrow> bool" where
  "keepsImage f = (\<forall>s. mask (f s) = mask s \<and> spriteOpts (f s) = spriteOpts s \<and>
                       imageData (f s) = imageData s \<and> rng (f s) = rng s \<and>
                       assigned (f s) = assigned s)"

definition buildGrid :: "Sprite \<Rightarrow> Sprite" where
  "buildGrid s =
     (let s1 = applyMask s;
          s2 = generateRandomSample s1;
          s3 = (if mask_mirrorX (mask s2) then mirrorX s2 else s2);
          s4 = (if mask_mirrorY (mask s3) then mirrorY s3 else s3)
      in generateEdges s4)"

definition blankSprite :: "(string \<Rightarrow> nat \<Rightarrow> real) \<Rightarrow> (nat \<Rightarrow> real) \<Rightarrow> world \<Rightarrow> Mask \<Rightarrow> SpriteOptions \<Rightarrow> Sprite" where
  "blankSprite seeded entropy w0 m opts =
     \<lparr> mask = m, spriteOpts = merge_defaults opts,
       data = replicate (mask_width m * (if mask_mirrorX m then 2 else 1) *
                         (mask_height m * (if mask_mirrorY m then 2 else 1))) (Some AlwaysBorder),
       imageData = [],
       rng = SeedRandom seeded entropy (seed (merge_defaults opts)),
       drawn = 0, assigned = [], world = w0 \<rparr>"

text \<open>
  The trace of \<^verbatim>\<open>calculateColors\<close>: the assignments the loop body makes for cell \<open>p\<close>,
  the cells in the order the loops visit them, and the number of assignments an index
  of the buffer receives.
\<close>

definition cellWrites :: "SpriteStructure option list \<Rightarrow> nat \<Rightarrow> nat list" where
  "cellWrites d p = pixelWrites (4 * p) (js_get d p \<noteq> Some Empty)"

definition traced :: "nat list \<Rightarrow> Sprite \<Rightarrow> Sprite \<Rightarrow> bool" where
  "traced cs s s' =
     (mask s' = mask s \<and> data s' = data s \<and>
      assigned s' = assigned s @ concat (map (cellWrites (data s)) cs))"

definition cellsUpTo :: "bool \<Rightarrow> nat \<Rightarrow> nat \<Rightarrow> nat \<Rightarrow> nat list" where
  "cellsUpTo isVerticalGradient ulen vlen n =
     concat (map (\<lambda>u. map (cellIndex isVerticalGradient ulen vlen u) [0..<vlen]) [0..<n])"

definition writeCount :: "SpriteStructure option list \<Rightarrow> nat \<Rightarrow> nat" where
  "writeCount d j = (if j mod 4 = 3 \<or> js_get d (j div 4) = Some Empty then 1 else 2)"
text \<open>
  Two runs of the pipeline are compared through the sprites they work on. \<open>variant e w s\<close>
  is \<open>s\<close> with the edge brightness \<open>e\<close> and the callback environment \<open>w\<close>; two
  sprites are alike when they differ at most in these two components (and not in the
  environment when \<open>sameWorld\<close> is required). A callback is free of the environment when
  its result depends on the coordinates only. The edge brightness is kept when the sprite
  is coloured, the only mode that reads it.
\<close>

definition variant :: "real \<Rightarrow> world \<Rightarrow> Sprite \<Rightarrow> Sprite" where
  "variant e w s = s\<lparr>spriteOpts := (spriteOpts s)\<lparr>edgeBrightness := e\<rparr>, world := w\<rparr>"

definition alike :: "bool \<Rightarrow> real \<Rightarrow> Sprite \<Rightarrow> Sprite \<Rightarrow> bool" where
  "alike sameWorld e s t = (t = variant e (world t) s \<and> (sameWorld \<longrightarrow> world t = world s))"

definition worldFree :: "Options \<Rightarrow> bool" where
  "worldFree opts =
     (case randomSampleCallback opts of
        None \<Rightarrow> True
      | Some cb \<Rightarrow> \<forall>x y w w'. fst (cb x y w) = fst (cb x y w'))"

definition keepsEdge :: "real \<Rightarrow> Sprite \<Rightarrow> bool" where
  "keepsEdge e s = (colored (spriteOpts s) \<longrightarrow> e = edgeBrightness (spriteOpts s))"

section \<open>Example inputs\<close>

definition noOptions :: SpriteOptions where
  "noOptions = \<lparr> opt_colored = None, opt_edgeBrightness = None,
     opt_colorVariations = None, opt_brightnessNoise = None, opt_saturation = None,
     opt_seed = None, opt_tint = None, opt_randomSampleCallback = None \<rparr>"

definition zeroStream :: "nat \<Rightarrow> real" where
  "zeroStream n = 0"

definition halfStream :: "nat \<Rightarrow> real" where
  "halfStream n = 1 / 2"

definition columnMask :: Mask where
  "columnMask = \<lparr> mask_data = [Empty, RandomlyBorderBody, Empty], mask_width = 1, mask_height = 3,
                   mask_mirrorX = False, mask_mirrorY = False \<rparr>"

definition columnBlank :: Sprite where
  "columnBlank = blankSprite (\<lambda>k. zeroStream) zeroStream 0 columnMask noOptions"

text \<open>
  A mask of one cell, a callback that reads a flag of its environment, and a callback
  that counts its calls there but returns the same code whatever the count.
\<close>

definition pointMask :: Mask where
  "pointMask = \<lparr> mask_data = [RandomlyEmptyBody], mask_width = 1, mask_height = 1,
                  mask_mirrorX = False, mask_mirrorY = False \<rparr>"

definition flagCallback :: callback where
  "flagCallback x y w = (if w = 0 then AlwaysBorder else RandomlyEmptyBody, w)"

definition flagOptions :: SpriteOptions where
  "flagOptions = noOptions\<lparr>opt_seed := Some ''mixel'', opt_randomSampleCallback := Some flagCallback\<rparr>"

definition countingCallback :: callback where
  "countingCallback x y w = (RandomlyBorderBody, Suc w)"

definition highStream :: "nat \<Rightarrow> real" where
  "highStream n = 3 / 4"

section \<open>Arrays\<close>

lemma js_get_set: "js_get (js_set xs i v) j = (if j = i then v else js_get xs j)"
  by (auto simp: js_get_def js_set_def nth_append)

lemma length_js_set_in: "i < length xs \<Longrightarrow> length (js_set xs i v) = length xs"
  by (simp add: js_set_def)

lemma js_get_Some_length: "js_get xs i = Some v \<Longrightarrow> i < length xs"
  by (simp add: js_get_def split: if_splits)

lemma mark_fold: "(if c \<and> getData x y s = Some Empty then setData x y (Some AlwaysBorder) s else s) = mark c (y * width s + x) s"
  by (simp add: mark_def getData_def setData_def)

lemma width_mark [simp]: "width (mark c i s) = width s"
  by (simp add: mark_def width_def)

lemma mark_frame: "mark c i s = s\<lparr>data := data (mark c i s)\<rparr>"
  by (simp add: mark_def)

lemma length_mark [simp]: "length (data (mark c i s)) = length (data s)"
  by (auto simp: mark_def length_js_set_in dest: js_get_Some_length)

lemma get_mark: "js_get (data (mark c i s)) j = (if c \<and> j = i \<and> js_get (data s) j = Some Empty then Some AlwaysBorder else js_get (data s) j)"
  by (auto simp: mark_def js_get_set)

lemma edgeStep_marks:
  "edgeStep w h x y s =
     (if isBody x y s then
        mark (x + 1 < w) (y * width s + (x + 1))
          (mark (1 \<le> x) (y * width s + (x - 1))
            (mark (y + 1 < h) ((y + 1) * width s + x)
              (mark (1 \<le> y) ((y - 1) * width s + x) s)))
      else s)"
  apply (unfold edgeStep_def)
  apply (unfold mark_fold)
  apply (unfold Let_def isBody_def)
  apply (simp del: AlwaysBorder_def Empty_def)
  done

section \<open>Edge synthesis\<close>

lemma get_mark_step:
  assumes "js_get (data t) j = (if js_get (data s) j = Some Empty \<and> P then Some AlwaysBorder else js_get (data s) j)"
  shows "js_get (data (mark c i t)) j =
           (if js_get (data s) j = Some Empty \<and> (P \<or> (c \<and> j = i)) then Some AlwaysBorder else js_get (data s) j)"
  using assms by (auto simp: get_mark)

lemma edgeStep_get:
  "js_get (data (edgeStep w h x y s)) j =
     (if js_get (data s) j = Some Empty \<and> isBody x y s \<and> j \<in> edgeTargets (width s) w h x y
      then Some AlwaysBorder else js_get (data s) j)"
proof (cases "isBody x y s")
  case False
  then show ?thesis by (simp add: edgeStep_marks)
next
  case True
  have 0: "js_get (data s) j = (if js_get (data s) j = Some Empty \<and> False then Some AlwaysBorder else js_get (data s) j)"
    by simp
  note 1 = get_mark_step [OF 0, of "1 \<le> y" "(y - 1) * width s + x"]
  note 2 = get_mark_step [OF 1, of "y + 1 < h" "(y + 1) * width s + x"]
  note 3 = get_mark_step [OF 2, of "1 \<le> x" "y * width s + (x - 1)"]
  note 4 = get_mark_step [OF 3, of "x + 1 < w" "y * width s + (x + 1)"]
  have "js_get (data (edgeStep w h x y s)) j =
     (if js_get (data s) j = Some Empty \<and>
         ((((False \<or> 1 \<le> y \<and> j = (y - 1) * width s + x) \<or> y + 1 < h \<and> j = (y + 1) * width s + x) \<or>
          1 \<le> x \<and> j = y * width s + (x - 1)) \<or> x + 1 < w \<and> j = y * width s + (x + 1))
      then Some AlwaysBorder else js_get (data s) j)"
    unfolding edgeStep_marks using True 4 by (simp only: if_True)
  also have "((((False \<or> 1 \<le> y \<and> j = (y - 1) * width s + x) \<or> y + 1 < h \<and> j = (y + 1) * width s + x) \<or>
          1 \<le> x \<and> j = y * width s + (x - 1)) \<or> x + 1 < w \<and> j = y * width s + (x + 1))
        \<longleftrightarrow> isBody x y s \<and> j \<in> edgeTargets (width s) w h x y"
    unfolding edgeTargets_def mem_Collect_eq using True by blast
  finally show ?thesis .
qed

lemma dataOnlyI: "(\<And>s. f s = s\<lparr>data := g s\<rparr>) \<Longrightarrow> dataOnly f"
  unfolding dataOnly_def by blast

lemma dataOnly_id: "dataOnly (\<lambda>s. s)"
proof (rule dataOnlyI)
  fix s :: Sprite show "s = s\<lparr>data := data s\<rparr>" by simp
qed

lemma dataOnly_comp: "dataOnly f \<Longrightarrow> dataOnly g \<Longrightarrow> dataOnly (\<lambda>s. g (f s))"
  unfolding dataOnly_def
proof
  fix s assume f: "\<forall>s. \<exists>d. f s = s\<lparr>data := d\<rparr>" and g: "\<forall>s. \<exists>d. g s = s\<lparr>data := d\<rparr>"
  obtain d where d: "f s = s\<lparr>data := d\<rparr>" using f by blast
  obtain e where e: "g (s\<lparr>data := d\<rparr>) = s\<lparr>data := d, data := e\<rparr>" using g by blast
  have "g (f s) = s\<lparr>data := e\<rparr>" by (simp add: d e)
  then show "\<exists>d. g (f s) = s\<lparr>data := d\<rparr>" by blast
qed

lemma dataOnly_fold: "(\<And>x. dataOnly (f x)) \<Longrightarrow> dataOnly (fold f xs)"
proof (induction xs)
  case Nil
  show ?case using dataOnly_id by (simp add: id_def)
next
  case (Cons x xs)
  have "dataOnly (\<lambda>s. fold f xs (f x s))"
    by (rule dataOnly_comp) (use Cons in auto)
  then show ?case by (simp add: comp_def)
qed

lemma dataOnly_setData: "dataOnly (\<lambda>s. setData (fx s) (fy s) (fv s) s)"
  by (rule dataOnlyI) (simp add: setData_def)

lemma dataOnly_mark: "dataOnly (mark c i)"
  by (rule dataOnlyI [where g = "\<lambda>s. data (mark c i s)"]) (simp add: mark_def)

lemma dataOnly_edgeStep: "dataOnly (edgeStep w h x y)"
  by (rule dataOnlyI [where g = "\<lambda>s. data (edgeStep w h x y s)"]) (simp add: edgeStep_marks mark_def)

lemma dataOnlyD: "dataOnly f \<Longrightarrow> f s = s\<lparr>data := data (f s)\<rparr>"
  unfolding dataOnly_def
proof -
  assume "\<forall>s. \<exists>d. f s = s\<lparr>data := d\<rparr>"
  then obtain d where d: "f s = s\<lparr>data := d\<rparr>" by blast
  show ?thesis by (simp add: d)
qed

lemma dataOnly_width: "dataOnly f \<Longrightarrow> width (f s) = width s"
  by (metis dataOnlyD width_def Sprite.select_convs(1) Sprite.surjective Sprite.update_convs(3))

lemma fold_scan: "fold (\<lambda>y. fold (\<lambda>x. f x y) xs) ys = fold (\<lambda>(x, y). f x y) (concat (map (\<lambda>y. map (\<lambda>x. (x, y)) xs) ys))"
  by (induction ys) (auto simp: fold_map comp_def)

lemma set_scan: "set (scan w h) = {(x, y). x < w \<and> y < h}"
  by (auto simp: scan_def)

lemma edgeStep_width [simp]: "width (edgeStep w h x y s) = width s"
  by (simp add: edgeStep_marks)

lemma edgeStep_length [simp]: "length (data (edgeStep w h x y s)) = length (data s)"
  by (simp add: edgeStep_marks)

lemma edgeStep_isBody [simp]: "isBody x' y' (edgeStep w h x y s) = isBody x' y' s"
  by (auto simp: isBody_def getData_def edgeStep_get)

lemma edges_fold_length [simp]: "length (data (fold (\<lambda>(x, y). edgeStep w h x y) cs s)) = length (data s)"
  by (induction cs arbitrary: s) auto

lemma edges_fold_get:
  "js_get (data (fold (\<lambda>(x, y). edgeStep w h x y) cs s)) j =
     (if js_get (data s) j = Some Empty \<and>
         (\<exists>(x, y) \<in> set cs. isBody x y s \<and> j \<in> edgeTargets (width s) w h x y)
      then Some AlwaysBorder else js_get (data s) j)"
proof (induction cs arbitrary: s)
  case Nil
  show ?case by simp
next
  case (Cons c cs)
  obtain x y where c: "c = (x, y)" by (cases c)
  let ?t = "edgeStep w h x y s"
  let ?R = "\<exists>(x, y) \<in> set cs. isBody x y s \<and> j \<in> edgeTargets (width s) w h x y"
  let ?Q = "isBody x y s \<and> j \<in> edgeTargets (width s) w h x y"
  have "js_get (data (fold (\<lambda>(x, y). edgeStep w h x y) (c # cs) s)) j =
        (if js_get (data ?t) j = Some Empty \<and> ?R then Some AlwaysBorder else js_get (data ?t) j)"
    by (simp add: c Cons.IH)
  also have "\<dots> = (if js_get (data s) j = Some Empty \<and> (?Q \<or> ?R) then Some AlwaysBorder else js_get (data s) j)"
    unfolding edgeStep_get [of w h x y s j] by auto
  also have "(?Q \<or> ?R) \<longleftrightarrow> (\<exists>(x, y) \<in> set (c # cs). isBody x y s \<and> j \<in> edgeTargets (width s) w h x y)"
    by (simp add: c)
  finally show ?case .
qed

lemma width_markFrom [simp]: "width (markFrom s0 c i s) = width s"
  by (simp add: markFrom_def width_def)

lemma dataOnly_markFrom: "dataOnly (markFrom s0 c i)"
  by (rule dataOnlyI [where g = "\<lambda>s. data (markFrom s0 c i s)"]) (simp add: markFrom_def)

lemma length_markFrom [simp]:
  "length (data s) = length (data s0) \<Longrightarrow> length (data (markFrom s0 c i s)) = length (data s0)"
  by (auto simp: markFrom_def length_js_set_in dest: js_get_Some_length)

lemma get_markFrom_step:
  assumes "js_get (data t) j = (if js_get (data s0) j = Some Empty \<and> P then Some AlwaysBorder else js_get (data s) j)"
  shows "js_get (data (markFrom s0 c i t)) j =
           (if js_get (data s0) j = Some Empty \<and> (P \<or> (c \<and> j = i)) then Some AlwaysBorder else js_get (data s) j)"
  using assms by (auto simp: markFrom_def js_get_set)

lemma edgeStepSnapshot_marks:
  assumes "width s = width s0"
  shows "edgeStepSnapshot s0 w h x y s =
     (if isBody x y s0 then
        markFrom s0 (x + 1 < w) (y * width s0 + (x + 1))
          (markFrom s0 (1 \<le> x) (y * width s0 + (x - 1))
            (markFrom s0 (y + 1 < h) ((y + 1) * width s0 + x)
              (markFrom s0 (1 \<le> y) ((y - 1) * width s0 + x) s)))
      else s)"
proof -
  have m: "\<And>c x y t. width t = width s0 \<Longrightarrow>
      (if c \<and> getData x y s0 = Some Empty then setData x y (Some AlwaysBorder) t else t) =
      markFrom s0 c (y * width s0 + x) t"
    by (simp add: markFrom_def getData_def setData_def)
  let ?s1 = "markFrom s0 (1 \<le> y) ((y - 1) * width s0 + x) s"
  let ?s2 = "markFrom s0 (y + 1 < h) ((y + 1) * width s0 + x) ?s1"
  let ?s3 = "markFrom s0 (1 \<le> x) (y * width s0 + (x - 1)) ?s2"
  have w1: "width ?s1 = width s0" and w2: "width ?s2 = width s0" and w3: "width ?s3 = width s0"
    using assms by simp_all
  show ?thesis
    unfolding edgeStepSnapshot_def Let_def isBody_def
    unfolding m [OF assms] m [OF w1] m [OF w2] m [OF w3]
    by (simp del: AlwaysBorder_def Empty_def)
qed

lemma js_list_eqI:
  assumes "length xs = length ys" and "\<And>j. js_get xs j = js_get ys j"
  shows "xs = ys"
proof (rule nth_equalityI)
  show "length xs = length ys" by fact
next
  fix i assume "i < length xs"
  then show "xs ! i = ys ! i"
    using assms(1) assms(2) [of i] by (simp add: js_get_def)
qed

lemma dataOnly_putIf: "dataOnly (\<lambda>s. if c then setData x y v s else s)"
  by (cases c) (simp_all add: dataOnly_setData dataOnly_id)

lemma dataOnly_edgeStepSnapshot: "dataOnly (edgeStepSnapshot s0 w h x y)"
proof -
  let ?g1 = "\<lambda>s. if 1 \<le> y \<and> getData x (y - 1) s0 = Some Empty then setData x (y - 1) (Some AlwaysBorder) s else s"
  let ?g2 = "\<lambda>s. if y + 1 < h \<and> getData x (y + 1) s0 = Some Empty then setData x (y + 1) (Some AlwaysBorder) s else s"
  let ?g3 = "\<lambda>s. if 1 \<le> x \<and> getData (x - 1) y s0 = Some Empty then setData (x - 1) y (Some AlwaysBorder) s else s"
  let ?g4 = "\<lambda>s. if x + 1 < w \<and> getData (x + 1) y s0 = Some Empty then setData (x + 1) y (Some AlwaysBorder) s else s"
  have e: "edgeStepSnapshot s0 w h x y =
      (\<lambda>s. if getData x y s0 = Some AlwaysBorder \<or> getData x y s0 = Some Empty then s else ?g4 (?g3 (?g2 (?g1 s))))"
    unfolding edgeStepSnapshot_def Let_def by (rule refl)
  have "dataOnly (\<lambda>s. ?g4 (?g3 (?g2 (?g1 s))))"
    by (rule dataOnly_comp [where g = ?g4], rule dataOnly_comp [where g = ?g3],
        rule dataOnly_comp [where g = ?g2]) (rule dataOnly_putIf)+
  then show ?thesis
    unfolding e
    by (cases "getData x y s0 = Some AlwaysBorder \<or> getData x y s0 = Some Empty")
       (simp_all add: dataOnly_id del: AlwaysBorder_def Empty_def)
qed

lemma edgeStepSnapshot_width [simp]: "width (edgeStepSnapshot s0 w h x y s) = width s"
  by (rule dataOnly_width [OF dataOnly_edgeStepSnapshot])

lemma edgeStepSnapshot_length:
  "width s = width s0 \<Longrightarrow> length (data s) = length (data s0) \<Longrightarrow>
   length (data (edgeStepSnapshot s0 w h x y s)) = length (data s0)"
  by (simp add: edgeStepSnapshot_marks)

lemma edgeStepSnapshot_get:
  assumes "width s = width s0"
  shows "js_get (data (edgeStepSnapshot s0 w h x y s)) j =
     (if js_get (data s0) j = Some Empty \<and> isBody x y s0 \<and> j \<in> edgeTargets (width s0) w h x y
      then Some AlwaysBorder else js_get (data s) j)"
proof (cases "isBody x y s0")
  case False
  then show ?thesis by (simp add: edgeStepSnapshot_marks [OF assms])
next
  case True
  have 0: "js_get (data s) j = (if js_get (data s0) j = Some Empty \<and> False then Some AlwaysBorder else js_get (data s) j)"
    by simp
  note 1 = get_markFrom_step [OF 0, of "1 \<le> y" "(y - 1) * width s0 + x"]
  note 2 = get_markFrom_step [OF 1, of "y + 1 < h" "(y + 1) * width s0 + x"]
  note 3 = get_markFrom_step [OF 2, of "1 \<le> x" "y * width s0 + (x - 1)"]
  note 4 = get_markFrom_step [OF 3, of "x + 1 < w" "y * width s0 + (x + 1)"]
  have "js_get (data (edgeStepSnapshot s0 w h x y s)) j =
     (if js_get (data s0) j = Some Empty \<and>
         ((((False \<or> 1 \<le> y \<and> j = (y - 1) * width s0 + x) \<or> y + 1 < h \<and> j = (y + 1) * width s0 + x) \<or>
          1 \<le> x \<and> j = y * width s0 + (x - 1)) \<or> x + 1 < w \<and> j = y * width s0 + (x + 1))
      then Some AlwaysBorder else js_get (data s) j)"
    unfolding edgeStepSnapshot_marks [OF assms] using True 4 by (simp only: if_True)
  also have "((((False \<or> 1 \<le> y \<and> j = (y - 1) * width s0 + x) \<or> y + 1 < h \<and> j = (y + 1) * width s0 + x) \<or>
          1 \<le> x \<and> j = y * width s0 + (x - 1)) \<or> x + 1 < w \<and> j = y * width s0 + (x + 1))
        \<longleftrightarrow> isBody x y s0 \<and> j \<in> edgeTargets (width s0) w h x y"
    unfolding edgeTargets_def mem_Collect_eq using True by blast
  finally show ?thesis .
qed

lemma snapshot_fold_inv:
  "width s = width s0 \<Longrightarrow> length (data s) = length (data s0) \<Longrightarrow>
   width (fold (\<lambda>(x, y). edgeStepSnapshot s0 w h x y) cs s) = width s0 \<and>
   length (data (fold (\<lambda>(x, y). edgeStepSnapshot s0 w h x y) cs s)) = length (data s0)"
proof (induction cs arbitrary: s)
  case Nil
  then show ?case by simp
next
  case (Cons c cs)
  obtain x y where c: "c = (x, y)" by (cases c)
  show ?case
    using Cons.IH [of "edgeStepSnapshot s0 w h x y s"] Cons.prems
    by (simp add: c edgeStepSnapshot_length)
qed

lemma snapshot_fold_get:
  "width s = width s0 \<Longrightarrow>
   js_get (data (fold (\<lambda>(x, y). edgeStepSnapshot s0 w h x y) cs s)) j =
     (if js_get (data s0) j = Some Empty \<and>
         (\<exists>(x, y) \<in> set cs. isBody x y s0 \<and> j \<in> edgeTargets (width s0) w h x y)
      then Some AlwaysBorder else js_get (data s) j)"
proof (induction cs arbitrary: s)
  case Nil
  show ?case by simp
next
  case (Cons c cs)
  obtain x y where c: "c = (x, y)" by (cases c)
  let ?t = "edgeStepSnapshot s0 w h x y s"
  let ?R = "\<exists>(x, y) \<in> set cs. isBody x y s0 \<and> j \<in> edgeTargets (width s0) w h x y"
  let ?Q = "isBody x y s0 \<and> j \<in> edgeTargets (width s0) w h x y"
  have wt: "width ?t = width s0" using Cons.prems by simp
  have "js_get (data (fold (\<lambda>(x, y). edgeStepSnapshot s0 w h x y) (c # cs) s)) j =
        (if js_get (data s0) j = Some Empty \<and> ?R then Some AlwaysBorder else js_get (data ?t) j)"
    by (simp add: c Cons.IH [OF wt])
  also have "\<dots> = (if js_get (data s0) j = Some Empty \<and> (?Q \<or> ?R) then Some AlwaysBorder else js_get (data s) j)"
    unfolding edgeStepSnapshot_get [OF Cons.prems, of w h x y j] by auto
  also have "(?Q \<or> ?R) \<longleftrightarrow> (\<exists>(x, y) \<in> set (c # cs). isBody x y s0 \<and> j \<in> edgeTargets (width s0) w h x y)"
    by (simp add: c)
  finally show ?case .
qed

lemma generateEdges_scan: "generateEdges s = fold (\<lambda>(x, y). edgeStep (width s) (height s) x y) (scan (width s) (height s)) s"
  by (simp add: generateEdges_def Let_def fold_scan scan_def)

lemma generateEdgesSnapshot_scan:
  "generateEdgesSnapshot s = fold (\<lambda>(x, y). edgeStepSnapshot s (width s) (height s) x y) (scan (width s) (height s)) s"
  by (simp add: generateEdgesSnapshot_def Let_def fold_scan scan_def)

lemma dataOnly_generateEdges: "dataOnly generateEdges"
  unfolding generateEdges_def Let_def
  by (rule dataOnlyI [where g = "\<lambda>s. data (generateEdges s)"])
     (metis dataOnlyD dataOnly_fold dataOnly_edgeStep generateEdges_def)

lemma dataOnly_generateEdgesSnapshot: "dataOnly generateEdgesSnapshot"
  by (rule dataOnlyI [where g = "\<lambda>s. data (generateEdgesSnapshot s)"])
     (metis dataOnlyD dataOnly_fold dataOnly_edgeStepSnapshot generateEdgesSnapshot_def)

lemma generateEdges_length: "length (data (generateEdges s)) = length (data s)"
  by (simp add: generateEdges_scan)

lemma generateEdges_get:
  "js_get (data (generateEdges s)) j =
     (if js_get (data s) j = Some Empty \<and>
         (\<exists>x y. x < width s \<and> y < height s \<and> isBody x y s \<and> j \<in> edgeTargets (width s) (width s) (height s) x y)
      then Some AlwaysBorder else js_get (data s) j)"
  by (simp add: generateEdges_scan edges_fold_get set_scan)

lemma generateEdges_is_snapshot: "generateEdges s = generateEdgesSnapshot s"
proof -
  have "data (generateEdges s) = data (generateEdgesSnapshot s)"
  proof (rule js_list_eqI)
    show "length (data (generateEdges s)) = length (data (generateEdgesSnapshot s))"
      using snapshot_fold_inv [of s s] by (simp add: generateEdges_length generateEdgesSnapshot_scan)
  next
    fix j
    show "js_get (data (generateEdges s)) j = js_get (data (generateEdgesSnapshot s)) j"
      by (simp add: generateEdges_scan generateEdgesSnapshot_scan edges_fold_get snapshot_fold_get)
  qed
  then show ?thesis
    using dataOnlyD [OF dataOnly_generateEdges, of s] dataOnlyD [OF dataOnly_generateEdgesSnapshot, of s]
    by simp
qed

lemma cell_index_inj:
  assumes "x < (W::nat)" and "x' < W" and "y * W + x = y' * W + x'"
  shows "x = x' \<and> y = y'"
proof
  have "x = (y * W + x) mod W" using assms(1) by simp
  also have "\<dots> = (y' * W + x') mod W" by (simp only: assms(3))
  also have "\<dots> = x'" using assms(2) by simp
  finally show "x = x'" .
  have "y = (y * W + x) div W" using assms(1) by simp
  also have "\<dots> = (y' * W + x') div W" by (simp only: assms(3))
  also have "\<dots> = y'" using assms(2) by simp
  finally show "y = y'" .
qed

lemma edgeTargets_adjacent:
  assumes "x < W" "y < H" "x0 < W" "y0 < H" and "y * W + x \<in> edgeTargets W W H x0 y0"
  shows "adjacent x y x0 y0"
proof -
  from assms(5) consider
      "1 \<le> y0" "y * W + x = (y0 - 1) * W + x0"
    | "y0 + 1 < H" "y * W + x = (y0 + 1) * W + x0"
    | "1 \<le> x0" "y * W + x = y0 * W + (x0 - 1)"
    | "x0 + 1 < W" "y * W + x = y0 * W + (x0 + 1)"
    unfolding edgeTargets_def by blast
  then show ?thesis
  proof cases
    case 1
    with cell_index_inj [of x W x0 y "y0 - 1"] assms show ?thesis by (simp add: adjacent_def)
  next
    case 2
    with cell_index_inj [of x W x0 y "y0 + 1"] assms show ?thesis by (simp add: adjacent_def)
  next
    case 3
    with cell_index_inj [of x W "x0 - 1" y y0] assms show ?thesis by (simp add: adjacent_def)
  next
    case 4
    with cell_index_inj [of x W "x0 + 1" y y0] assms show ?thesis by (simp add: adjacent_def)
  qed
qed

lemma cell_in_range: "x < W \<Longrightarrow> y < H \<Longrightarrow> y * W + x < W * (H::nat)"
proof -
  assume a: "x < W" "y < H"
  then have "y * W + x < y * W + W" by simp
  also have "\<dots> = (y + 1) * W" by simp
  also have "\<dots> \<le> H * W" using a by (intro mult_le_mono1) simp
  finally show ?thesis by (simp add: mult.commute)
qed

lemma getData_in_set:
  "length (data s) = width s * height s \<Longrightarrow> x < width s \<Longrightarrow> y < height s \<Longrightarrow>
   \<exists>c \<in> set (data s). getData x y s = c"
  using cell_in_range [of x "width s" y "height s"]
  by (simp add: getData_def js_get_def)

lemma columnSprite_edges: "data (generateEdges columnSprite) = [Some AlwaysBorder, Some RandomlyBorderBody, Some AlwaysBorder]"
  by (simp add: columnSprite_def generateEdges_def edgeStep_marks mark_def isBody_def getData_def
        height_def width_def js_set_def js_get_def eval_nat_numeral)

section \<open>Constructor and generator\<close>

lemma rng_next_simps [simp]:
  "fst (rng_next s) = rng s (drawn s)"
  "snd (rng_next s) = s\<lparr>drawn := Suc (drawn s)\<rparr>"
  by (simp_all add: rng_next_def)

lemma newSprite_no_warning: "fst (newSprite seeded entropy w0 m opts) = []"
  by (simp add: newSprite_def Let_def)

section \<open>Colouring\<close>

lemma length_js_set: "length (js_set xs i v) = max (length xs) (Suc i)"
  by (auto simp: js_set_def)

lemma storePixelData_length: "length (storePixelData i c t tm img) = max (length img) (i + 4)"
  by (simp add: storePixelData_def Let_def length_js_set)

lemma storePixelData_get_out:
  "\<not> (i \<le> j \<and> j < i + 4) \<Longrightarrow> js_get (storePixelData i c t tm img) j = js_get img j"
  by (auto simp: storePixelData_def Let_def js_get_set)

lemma storePixelData_get_in:
  "k < 4 \<Longrightarrow> js_get (storePixelData i c t tm img) (i + k) = Some (pixelChannel c t tm k)"
proof -
  assume "k < 4"
  then consider "k = 0" | "k = 1" | "k = 2" | "k = 3" by linarith
  then show ?thesis
    by cases (simp_all add: storePixelData_def Let_def js_get_set pixelChannel_def)
qed

lemma storePixelData_get:
  "js_get (storePixelData (4 * p) c t tm img) j =
     (if j div 4 = p then Some (pixelChannel c t tm (j mod 4)) else js_get img j)"
proof (cases "j div 4 = p")
  case True
  then have "j = 4 * p + j mod 4" by (metis div_mult_mod_eq mult.commute)
  moreover have "j mod 4 < 4" by simp
  ultimately show ?thesis using True storePixelData_get_in [of "j mod 4" "4 * p" c t tm img] by simp
next
  case False
  then have "\<not> (4 * p \<le> j \<and> j < 4 * p + 4)" by (auto simp: div_nat_eqI)
  then show ?thesis using False by (simp add: storePixelData_get_out)
qed

lemma storePixel_eq:
  "storePixel i c t tm s =
     s\<lparr>imageData := storePixelData i c t tm (imageData s), assigned := assigned s @ pixelWrites i t\<rparr>"
  by (simp add: storePixel_def storePixelData_def pixelWrites_def assignImage_def Let_def)

lemma forEach_rel_aux:
  assumes refl: "\<And>s. R {} s s"
    and trans: "\<And>P Q s s' s''. R P s s' \<Longrightarrow> R Q s' s'' \<Longrightarrow> R (P \<union> Q) s s''"
  shows "(\<forall>x \<in> set xs. \<forall>s s'. K s \<longrightarrow> f x s = Inr s' \<longrightarrow> R (Pf x) s s' \<and> K s') \<Longrightarrow>
         K s \<Longrightarrow> forEach f xs s = Inr s' \<Longrightarrow> R (\<Union>x \<in> set xs. Pf x) s s' \<and> K s'"
proof (induction xs arbitrary: s)
  case Nil
  then show ?case using refl by simp
next
  case (Cons x xs)
  from Cons.prems(3) obtain t where t: "f x s = Inr t" "forEach f xs t = Inr s'"
    by (cases "f x s") simp_all
  have hd: "\<forall>s s'. K s \<longrightarrow> f x s = Inr s' \<longrightarrow> R (Pf x) s s' \<and> K s'"
    and tl: "\<forall>y \<in> set xs. \<forall>s s'. K s \<longrightarrow> f y s = Inr s' \<longrightarrow> R (Pf y) s s' \<and> K s'"
    using Cons.prems(1) by (meson list.set_intros)+
  have 1: "R (Pf x) s t \<and> K t"
    by (rule hd [rule_format, OF Cons.prems(2) t(1)])
  then have r1: "R (Pf x) s t" and k1: "K t" by simp_all
  have 2: "R (\<Union>x \<in> set xs. Pf x) t s' \<and> K s'"
    by (rule Cons.IH [OF tl k1 t(2)])
  then have r2: "R (\<Union>x \<in> set xs. Pf x) t s'" and k2: "K s'" by simp_all
  have "R (Pf x \<union> (\<Union>x \<in> set xs. Pf x)) s s'"
    by (rule trans [OF r1 r2])
  then show ?case using k2 by simp
qed

lemma forEach_rel:
  assumes step: "\<And>x s s'. x \<in> set xs \<Longrightarrow> K s \<Longrightarrow> f x s = Inr s' \<Longrightarrow> R (Pf x) s s' \<and> K s'"
    and refl: "\<And>s. R {} s s"
    and trans: "\<And>P Q s s' s''. R P s s' \<Longrightarrow> R Q s' s'' \<Longrightarrow> R (P \<union> Q) s s''"
    and "K s" and "forEach f xs s = Inr s'"
  shows "R (\<Union>x \<in> set xs. Pf x) s s' \<and> K s'"
proof (rule forEach_rel_aux [where R = R and K = K and f = f and Pf = Pf, OF refl trans])
  show "\<forall>x \<in> set xs. \<forall>s s'. K s \<longrightarrow> f x s = Inr s' \<longrightarrow> R (Pf x) s s' \<and> K s'"
    by (intro ballI allI impI) (rule step)
  show "K s" by fact
  show "forEach f xs s = Inr s'" by fact
qed

lemma forEach_total:
  assumes step: "\<And>x s. x \<in> set xs \<Longrightarrow> K s \<Longrightarrow> \<exists>s'. f x s = Inr s' \<and> K s'"
    and "K s"
  shows "\<exists>s'. forEach f xs s = Inr s' \<and> K s'"
  using assms
proof (induction xs arbitrary: s)
  case Nil
  then show ?case by simp
next
  case (Cons x xs)
  obtain t where t: "f x s = Inr t" "K t"
    using Cons.prems(1) [of x s] Cons.prems(2) by auto
  obtain s' where "forEach f xs t = Inr s'" "K s'"
    using Cons.IH [of t] Cons.prems(1) t(2) by auto
  then show ?case using t by auto
qed

lemma paints_refl: "paints V {} s s"
  by (simp add: paints_def)

lemma paints_trans:
  assumes "paints V P s s'" and "paints V Q s' s''"
  shows "paints V (P \<union> Q) s s''"
  unfolding paints_def
proof (intro conjI allI impI)
  show "mask s'' = mask s" "spriteOpts s'' = spriteOpts s" "data s'' = data s" "rng s'' = rng s"
    using assms by (simp_all add: paints_def)
next
  fix j
  have a: "if j div 4 \<in> P then (\<exists>x. js_get (imageData s') j = Some x \<and> V j x)
           else js_get (imageData s') j = js_get (imageData s) j"
    using assms(1) unfolding paints_def by blast
  have b: "if j div 4 \<in> Q then (\<exists>x. js_get (imageData s'') j = Some x \<and> V j x)
           else js_get (imageData s'') j = js_get (imageData s') j"
    using assms(2) unfolding paints_def by blast
  show "if j div 4 \<in> P \<union> Q then (\<exists>x. js_get (imageData s'') j = Some x \<and> V j x)
        else js_get (imageData s'') j = js_get (imageData s) j"
    using a b by (auto split: if_splits)
next
  fix N
  assume n: "length (imageData s) \<le> N \<and> (\<forall>p \<in> P \<union> Q. 4 * p + 4 \<le> N)"
  have "length (imageData s') \<le> N"
    using assms(1) n unfolding paints_def by blast
  then show "length (imageData s'') \<le> N"
    using assms(2) n unfolding paints_def by blast
qed

lemma paints_drawn: "paints V {} s (s\<lparr>drawn := n\<rparr>)"
  by (simp add: paints_def)

lemma paints_store:
  assumes "\<And>k. k < 4 \<Longrightarrow> V (4 * p + k) (pixelChannel c t tm k)"
  shows "paints V {p} s (s\<lparr>drawn := n, imageData := storePixelData (4 * p) c t tm (imageData s), assigned := a\<rparr>)"
  unfolding paints_def
proof (intro conjI allI impI)
  fix j
  show "if j div 4 \<in> {p}
        then \<exists>x. js_get (imageData (s\<lparr>drawn := n, imageData := storePixelData (4 * p) c t tm (imageData s), assigned := a\<rparr>)) j = Some x \<and> V j x
        else js_get (imageData (s\<lparr>drawn := n, imageData := storePixelData (4 * p) c t tm (imageData s), assigned := a\<rparr>)) j = js_get (imageData s) j"
  proof (cases "j div 4 = p")
    case True
    then have j: "j = 4 * p + j mod 4" by (metis div_mult_mod_eq mult.commute)
    have "V (4 * p + j mod 4) (pixelChannel c t tm (j mod 4))" by (rule assms) simp
    with j have "V j (pixelChannel c t tm (j mod 4))" by simp
    with True show ?thesis by (simp add: storePixelData_get)
  next
    case False
    then show ?thesis by (simp add: storePixelData_get)
  qed
next
  fix N
  assume "length (imageData s) \<le> N \<and> (\<forall>q \<in> {p}. 4 * q + 4 \<le> N)"
  then show "length (imageData (s\<lparr>drawn := n, imageData := storePixelData (4 * p) c t tm (imageData s), assigned := a\<rparr>)) \<le> N"
    by (simp add: storePixelData_length)
qed simp_all

lemma pixelIndex_cellIndex: "pixelIndex vert ulen vlen u v = 4 * cellIndex vert ulen vlen u v"
  by (simp add: pixelIndex_def cellIndex_def)

lemma cellColor_shape:
  assumes "cellColor u ulen sat hue val s = Inr (c, s1)"
  shows "\<exists>n. s1 = s\<lparr>drawn := n\<rparr>"
proof -
  have "s1 = s\<lparr>drawn := drawn s1\<rparr>"
    using assms unfolding cellColor_def rng_next_def Let_def
    by (auto split: if_splits option.splits)
  then show ?thesis ..
qed

lemma pixelStep_shape:
  assumes "pixelStep vert ulen vlen sat hue u v s = Inr s'"
  shows "\<exists>n c tm. s' = s\<lparr>drawn := n,
           imageData := storePixelData (4 * cellIndex vert ulen vlen u v) c
                          ((if vert then getData v u s else getData u v s) \<noteq> Some Empty) tm (imageData s),
           assigned := assigned s @ pixelWrites (4 * cellIndex vert ulen vlen u v)
                          ((if vert then getData v u s else getData u v s) \<noteq> Some Empty)\<rparr>"
proof -
  let ?val = "if vert then getData v u s else getData u v s"
  let ?tm = "case tint (spriteOpts s) of None \<Rightarrow> \<lparr>rgb_r = 1, rgb_g = 1, rgb_b = 1\<rparr> | Some t \<Rightarrow> t"
  from assms obtain c s1 where c: "cellColor u ulen sat hue ?val s = Inr (c, s1)"
    and s': "s' = storePixel (4 * cellIndex vert ulen vlen u v) c (?val \<noteq> Some Empty) ?tm s1"
    unfolding pixelStep_def Let_def pixelIndex_cellIndex
    by (auto split: sum.splits simp del: AlwaysBorder_def Empty_def)
  from cellColor_shape [OF c] obtain n where "s1 = s\<lparr>drawn := n\<rparr>" by blast
  with s' have "s' = s\<lparr>drawn := n,
           imageData := storePixelData (4 * cellIndex vert ulen vlen u v) c (?val \<noteq> Some Empty) ?tm (imageData s),
           assigned := assigned s @ pixelWrites (4 * cellIndex vert ulen vlen u v) (?val \<noteq> Some Empty)\<rparr>"
    by (simp add: storePixel_eq)
  then show ?thesis by blast
qed

lemma pixelStep_paints:
  assumes "pixelStep vert ulen vlen sat hue u v s = Inr s'"
  shows "paints (\<lambda>j x. True) {cellIndex vert ulen vlen u v} s s'"
proof -
  from pixelStep_shape [OF assms] obtain n c tm where
    "s' = s\<lparr>drawn := n,
           imageData := storePixelData (4 * cellIndex vert ulen vlen u v) c
                          ((if vert then getData v u s else getData u v s) \<noteq> Some Empty) tm (imageData s),
           assigned := assigned s @ pixelWrites (4 * cellIndex vert ulen vlen u v)
                          ((if vert then getData v u s else getData u v s) \<noteq> Some Empty)\<rparr>"
    by blast
  then show ?thesis by (simp add: paints_store)
qed

lemma nextHue_frame: "nextHue hue s = (fst (nextHue hue s), s\<lparr>drawn := drawn (snd (nextHue hue s))\<rparr>)"
  by (simp add: nextHue_def isNewColor_def rng_next_def Let_def)

lemma nextHue_shape: "\<exists>h n. nextHue hue s = (h, s\<lparr>drawn := n\<rparr>)"
  using nextHue_frame [of hue s] by blast

lemma gradientStep_paints:
  assumes pix: "\<And>hue v s s'. v < vlen \<Longrightarrow> K s \<Longrightarrow> pixelStep vert ulen vlen sat hue u v s = Inr s' \<Longrightarrow>
                  paints V {cellIndex vert ulen vlen u v} s s' \<and> K s'"
    and Kd: "\<And>s n. K s \<Longrightarrow> K (s\<lparr>drawn := n\<rparr>)"
    and K: "K (snd hs)"
    and run: "gradientStep vert ulen vlen sat u hs = Inr hs'"
  shows "paints V (cellIndex vert ulen vlen u ` {0..<vlen}) (snd hs) (snd hs') \<and> K (snd hs')"
proof -
  obtain h n where hn: "nextHue (fst hs) (snd hs) = (h, (snd hs)\<lparr>drawn := n\<rparr>)"
    using nextHue_shape by blast
  let ?s1 = "(snd hs)\<lparr>drawn := n\<rparr>"
  from run obtain s2 where s2: "forEach (pixelStep vert ulen vlen sat h u) [0..<vlen] ?s1 = Inr s2"
    and hs': "hs' = (h, s2)"
    by (auto simp: gradientStep_def hn split: sum.splits)
  have K1: "K ?s1" using K by (rule Kd)
  have "paints V (\<Union>v \<in> set [0..<vlen]. {cellIndex vert ulen vlen u v}) ?s1 s2 \<and> K s2"
  proof (rule forEach_rel [where R = "paints V" and K = K, OF _ _ _ K1 s2])
    fix v s s'
    assume "v \<in> set [0..<vlen]" "K s" "pixelStep vert ulen vlen sat h u v s = Inr s'"
    then show "paints V {cellIndex vert ulen vlen u v} s s' \<and> K s'"
      using pix [of v s h s'] by simp
  next
    fix s show "paints V {} s s" by (rule paints_refl)
  next
    fix P Q s s' s''
    assume "paints V P s s'" "paints V Q s' s''"
    then show "paints V (P \<union> Q) s s''" by (rule paints_trans)
  qed
  moreover have "(\<Union>v \<in> set [0..<vlen]. {cellIndex vert ulen vlen u v}) = cellIndex vert ulen vlen u ` {0..<vlen}"
    by auto
  ultimately have p: "paints V (cellIndex vert ulen vlen u ` {0..<vlen}) ?s1 s2" and k: "K s2"
    by simp_all
  have "paints V ({} \<union> cellIndex vert ulen vlen u ` {0..<vlen}) (snd hs) s2"
    by (rule paints_trans [OF paints_drawn p])
  then show ?thesis using k hs' by simp
qed

lemma gradientLoop_paints:
  assumes pix: "\<And>hue u v s s'. u < ulen \<Longrightarrow> v < vlen \<Longrightarrow> K s \<Longrightarrow>
                  pixelStep vert ulen vlen sat hue u v s = Inr s' \<Longrightarrow>
                  paints V {cellIndex vert ulen vlen u v} s s' \<and> K s'"
    and Kd: "\<And>s n. K s \<Longrightarrow> K (s\<lparr>drawn := n\<rparr>)"
    and K: "K (snd hs)"
    and run: "forEach (gradientStep vert ulen vlen sat) [0..<ulen] hs = Inr hs'"
  shows "paints V (\<Union>u \<in> {0..<ulen}. cellIndex vert ulen vlen u ` {0..<vlen}) (snd hs) (snd hs') \<and> K (snd hs')"
proof -
  have "paints V (\<Union>u \<in> set [0..<ulen]. cellIndex vert ulen vlen u ` {0..<vlen}) (snd hs) (snd hs') \<and> K (snd hs')"
  proof (rule forEach_rel [where R = "\<lambda>P a b. paints V P (snd a) (snd b)" and K = "\<lambda>a. K (snd a)", OF _ _ _ K run])
    fix u a b
    assume u: "u \<in> set [0..<ulen]" and "K (snd a)" and "gradientStep vert ulen vlen sat u a = Inr b"
    then show "paints V (cellIndex vert ulen vlen u ` {0..<vlen}) (snd a) (snd b) \<and> K (snd b)"
      using gradientStep_paints [where K = K and V = V and hs = a and hs' = b and u = u
          and vert = vert and ulen = ulen and vlen = vlen and sat = sat] pix Kd
      by simp
  next
    fix a :: "real \<times> Sprite" show "paints V {} (snd a) (snd a)" by (rule paints_refl)
  next
    fix P Q and a b c :: "real \<times> Sprite"
    assume "paints V P (snd a) (snd b)" "paints V Q (snd b) (snd c)"
    then show "paints V (P \<union> Q) (snd a) (snd c)" by (rule paints_trans)
  qed
  then show ?thesis by simp
qed

lemma cells_cover:
  assumes "if vert then ulen = H \<and> vlen = W else ulen = W \<and> vlen = H"
  shows "(\<Union>u \<in> {0..<ulen}. cellIndex vert ulen vlen u ` {0..<vlen}) = {p. p < W * H}"
proof (intro set_eqI iffI)
  fix p
  assume "p \<in> (\<Union>u \<in> {0..<ulen}. cellIndex vert ulen vlen u ` {0..<vlen})"
  then obtain u v where uv: "u < ulen" "v < vlen" "p = cellIndex vert ulen vlen u v" by auto
  show "p \<in> {p. p < W * H}"
  proof (cases vert)
    case True
    with assms uv have "v < W" "u < H" "p = u * W + v" by (simp_all add: cellIndex_def)
    then show ?thesis using cell_in_range [of v W u H] by simp
  next
    case False
    with assms uv have "u < W" "v < H" "p = v * W + u" by (simp_all add: cellIndex_def)
    then show ?thesis using cell_in_range [of u W v H] by simp
  qed
next
  fix p
  assume "p \<in> {p. p < W * H}"
  then have p: "p < W * H" by simp
  then have W: "0 < W" by (cases W) simp_all
  have x: "p mod W < W" using W by simp
  have y: "p div W < H" using p W by (simp add: less_mult_imp_div_less mult.commute)
  have e: "p = (p div W) * W + p mod W" by simp
  show "p \<in> (\<Union>u \<in> {0..<ulen}. cellIndex vert ulen vlen u ` {0..<vlen})"
  proof (cases vert)
    case True
    then have "p = cellIndex vert ulen vlen (p div W) (p mod W)" "p div W < ulen" "p mod W < vlen"
      using assms x y e by (simp_all add: cellIndex_def)
    then show ?thesis by (metis UN_I atLeast0LessThan imageI lessThan_iff)
  next
    case False
    then have "p = cellIndex vert ulen vlen (p mod W) (p div W)" "p mod W < ulen" "p div W < vlen"
      using assms x y e by (simp_all add: cellIndex_def)
    then show ?thesis by (metis UN_I atLeast0LessThan imageI lessThan_iff)
  qed
qed

lemma calculateColors_unfold:
  "calculateColors s =
     (case forEach (gradientStep (rng s (drawn s) > 1 / 2)
                      (if rng s (drawn s) > 1 / 2 then height s else width s)
                      (if rng s (drawn s) > 1 / 2 then width s else height s)
                      (max (min (rng s (Suc (drawn s)) * saturation (spriteOpts s)) 1) 0))
             [0..<(if rng s (drawn s) > 1 / 2 then height s else width s)]
             (rng s (Suc (Suc (drawn s))), s\<lparr>drawn := Suc (Suc (Suc (drawn s)))\<rparr>) of
        Inl e \<Rightarrow> Inl e
      | Inr hs \<Rightarrow> Inr (snd hs))"
  by (simp add: calculateColors_def rng_next_def Let_def width_def height_def)

lemma calculateColors_paints:
  assumes pix: "\<And>vert ulen vlen sat hue u v t t'.
                  (if vert then vlen = width s else ulen = width s) \<Longrightarrow> K t \<Longrightarrow>
                  pixelStep vert ulen vlen sat hue u v t = Inr t' \<Longrightarrow>
                  paints V {cellIndex vert ulen vlen u v} t t' \<and> K t'"
    and Kd: "\<And>t n. K t \<Longrightarrow> K (t\<lparr>drawn := n\<rparr>)"
    and K: "K s"
    and run: "calculateColors s = Inr s'"
  shows "paints V {p. p < width s * height s} s s' \<and> K s'"
proof -
  let ?vert = "rng s (drawn s) > 1 / 2"
  let ?ulen = "if ?vert then height s else width s"
  let ?vlen = "if ?vert then width s else height s"
  let ?sat = "max (min (rng s (Suc (drawn s)) * saturation (spriteOpts s)) 1) 0"
  let ?s3 = "s\<lparr>drawn := Suc (Suc (Suc (drawn s)))\<rparr>"
  let ?hs = "(rng s (Suc (Suc (drawn s))), ?s3)"
  from run obtain hs' where loop: "forEach (gradientStep ?vert ?ulen ?vlen ?sat) [0..<?ulen] ?hs = Inr hs'"
    and s': "s' = snd hs'"
    unfolding calculateColors_unfold by (auto split: sum.splits)
  have K3: "K (snd ?hs)" using Kd [OF K] by simp
  have "paints V (\<Union>u \<in> {0..<?ulen}. cellIndex ?vert ?ulen ?vlen u ` {0..<?vlen}) (snd ?hs) (snd hs') \<and> K (snd hs')"
  proof (rule gradientLoop_paints [where K = K, OF _ Kd K3 loop])
    fix hue u v t t'
    assume "K t" "pixelStep ?vert ?ulen ?vlen ?sat hue u v t = Inr t'"
    then show "paints V {cellIndex ?vert ?ulen ?vlen u v} t t' \<and> K t'"
      by (intro pix) simp_all
  qed
  moreover have "(\<Union>u \<in> {0..<?ulen}. cellIndex ?vert ?ulen ?vlen u ` {0..<?vlen}) = {p. p < width s * height s}"
    by (rule cells_cover) simp
  ultimately have p: "paints V {p. p < width s * height s} ?s3 s'" and k: "K s'"
    using s' by simp_all
  have "paints V ({} \<union> {p. p < width s * height s}) s s'"
    by (rule paints_trans [OF paints_drawn p])
  then show ?thesis using k by simp
qed

lemma painted_buffer:
  assumes "paints V {p. p < n} s s'" and "imageData s = []"
  shows "length (imageData s') = 4 * n \<and> (\<forall>j < 4 * n. \<exists>x. js_get (imageData s') j = Some x \<and> V j x)"
proof -
  have get: "\<And>j. if j div 4 \<in> {p. p < n} then (\<exists>x. js_get (imageData s') j = Some x \<and> V j x)
                    else js_get (imageData s') j = js_get (imageData s) j"
    using assms(1) unfolding paints_def by blast
  have len: "\<And>N. length (imageData s) \<le> N \<and> (\<forall>p \<in> {p. p < n}. 4 * p + 4 \<le> N) \<longrightarrow> length (imageData s') \<le> N"
    using assms(1) unfolding paints_def by blast
  have in4: "\<And>j. j < 4 * n \<Longrightarrow> \<exists>x. js_get (imageData s') j = Some x \<and> V j x"
  proof -
    fix j assume "j < 4 * n"
    then have "j div 4 < n" by simp
    with get [of j] show "\<exists>x. js_get (imageData s') j = Some x \<and> V j x" by simp
  qed
  have up: "length (imageData s') \<le> 4 * n"
    using len [of "4 * n"] assms(2) by auto
  have lo: "4 * n \<le> length (imageData s')"
  proof (cases n)
    case 0
    then show ?thesis by simp
  next
    case (Suc k)
    then have "4 * n - 1 < 4 * n" by simp
    from in4 [OF this] have "4 * n - 1 < length (imageData s')"
      by (auto simp: js_get_def split: if_splits)
    then show ?thesis by simp
  qed
  from up lo in4 show ?thesis by auto
qed

lemma keepsImage_dataOnly: "dataOnly f \<Longrightarrow> keepsImage f"
  unfolding keepsImage_def
proof
  fix s assume "dataOnly f"
  then have "f s = s\<lparr>data := data (f s)\<rparr>" by (rule dataOnlyD)
  then show "mask (f s) = mask s \<and> spriteOpts (f s) = spriteOpts s \<and>
             imageData (f s) = imageData s \<and> rng (f s) = rng s \<and>
             assigned (f s) = assigned s"
    by (metis Sprite.select_convs(1,2,4,5,7) Sprite.surjective Sprite.update_convs(3))
qed

lemma keepsImage_comp: "keepsImage f \<Longrightarrow> keepsImage g \<Longrightarrow> keepsImage (\<lambda>s. g (f s))"
  by (simp add: keepsImage_def)

lemma keepsImage_id: "keepsImage (\<lambda>s. s)"
  by (simp add: keepsImage_def)

lemma keepsImage_fold: "(\<And>x. keepsImage (f x)) \<Longrightarrow> keepsImage (fold f xs)"
proof (induction xs)
  case Nil
  show ?case by (simp add: keepsImage_def)
next
  case (Cons x xs)
  have "keepsImage (\<lambda>s. fold f xs (f x s))"
    by (rule keepsImage_comp) (use Cons in auto)
  then show ?case by (simp add: comp_def)
qed

lemma keepsImage_sampleCell: "keepsImage (sampleCell x y)"
  unfolding keepsImage_def sampleCell_def defaultRandomSample_def rng_next_def setData_def Let_def
  by (auto split: option.splits prod.splits)

lemma dataOnly_applyMask: "dataOnly applyMask"
proof -
  have "\<And>s0. dataOnly (\<lambda>s. fold (\<lambda>y. fold (\<lambda>x. setData x y (js_get (map Some (mask_data (mask s0))) (y * mask_width (mask s0) + x))) [0..<mask_width (mask s0)])
        [0..<mask_height (mask s0)] s)"
    by (intro dataOnly_fold dataOnly_setData)
  then have "\<And>s. \<exists>d. applyMask s = s\<lparr>data := d\<rparr>"
    unfolding applyMask_def Let_def dataOnly_def by blast
  then show ?thesis unfolding dataOnly_def by blast
qed

lemma dataOnly_mirrorX: "dataOnly mirrorX"
proof -
  have "\<And>h w. dataOnly (fold (\<lambda>y. fold (\<lambda>x t. setData (width t - x - 1) y (getData x y t) t) [0..<w]) [0..<h])"
    by (intro dataOnly_fold dataOnly_setData)
  then have "\<And>s. \<exists>d. mirrorX s = s\<lparr>data := d\<rparr>"
    unfolding mirrorX_def Let_def dataOnly_def by blast
  then show ?thesis unfolding dataOnly_def by blast
qed

lemma dataOnly_mirrorY: "dataOnly mirrorY"
proof -
  have "\<And>h w. dataOnly (fold (\<lambda>y. fold (\<lambda>x t. setData x (height t - y - 1) (getData x y t) t) [0..<w]) [0..<h])"
    by (intro dataOnly_fold dataOnly_setData)
  then have "\<And>s. \<exists>d. mirrorY s = s\<lparr>data := d\<rparr>"
    unfolding mirrorY_def Let_def dataOnly_def by blast
  then show ?thesis unfolding dataOnly_def by blast
qed

lemma keepsImage_generateRandomSample: "keepsImage generateRandomSample"
proof -
  have "\<And>h w. keepsImage (fold (\<lambda>y. fold (\<lambda>x. sampleCell x y) [0..<w]) [0..<h])"
    by (intro keepsImage_fold keepsImage_sampleCell)
  then show ?thesis
    unfolding generateRandomSample_def Let_def keepsImage_def by blast
qed

lemma keepsImage_if: "keepsImage f \<Longrightarrow> keepsImage (\<lambda>s. if c s then f s else s)"
  by (simp add: keepsImage_def)

lemma keepsImage_buildGrid: "keepsImage buildGrid"
proof -
  let ?mx = "\<lambda>s. if mask_mirrorX (mask s) then mirrorX s else s"
  let ?my = "\<lambda>s. if mask_mirrorY (mask s) then mirrorY s else s"
  have 1: "keepsImage applyMask" by (rule keepsImage_dataOnly [OF dataOnly_applyMask])
  have 2: "keepsImage (\<lambda>s. generateRandomSample (applyMask s))"
    by (rule keepsImage_comp [OF 1 keepsImage_generateRandomSample])
  have 3: "keepsImage (\<lambda>s. ?mx (generateRandomSample (applyMask s)))"
    by (rule keepsImage_comp [OF 2 keepsImage_if [OF keepsImage_dataOnly [OF dataOnly_mirrorX]]])
  have 4: "keepsImage (\<lambda>s. ?my (?mx (generateRandomSample (applyMask s))))"
    by (rule keepsImage_comp [OF 3 keepsImage_if [OF keepsImage_dataOnly [OF dataOnly_mirrorY]]])
  have 5: "keepsImage (\<lambda>s. generateEdges (?my (?mx (generateRandomSample (applyMask s)))))"
    by (rule keepsImage_comp [OF 4 keepsImage_dataOnly [OF dataOnly_generateEdges]])
  have "buildGrid = (\<lambda>s. generateEdges (?my (?mx (generateRandomSample (applyMask s)))))"
    unfolding buildGrid_def Let_def by (rule refl)
  with 5 show ?thesis by simp
qed

lemma init_buildGrid: "init s = calculateColors (buildGrid s)"
  unfolding init_def buildGrid_def Let_def by (rule refl)

lemma newSprite_unfold:
  "newSprite seeded entropy w0 m opts =
     (if 2 ^ 32 \<le> mask_width m * (if mask_mirrorX m then 2 else 1) *
                    (mask_height m * (if mask_mirrorY m then 2 else 1))
      then ([], Inl RangeError)
      else ([], calculateColors (buildGrid (blankSprite seeded entropy w0 m opts))))"
  unfolding newSprite_def blankSprite_def init_buildGrid Let_def by simp

lemma buildGrid_blank:
  "mask (buildGrid (blankSprite seeded entropy w0 m opts)) = m"
  "spriteOpts (buildGrid (blankSprite seeded entropy w0 m opts)) = merge_defaults opts"
  "imageData (buildGrid (blankSprite seeded entropy w0 m opts)) = []"
  using keepsImage_buildGrid unfolding keepsImage_def by (simp_all add: blankSprite_def)

lemma calculateColors_buffer:
  assumes "calculateColors s = Inr s'" and "imageData s = []"
  shows "mask s' = mask s \<and> spriteOpts s' = spriteOpts s \<and> data s' = data s \<and>
         length (imageData s') = 4 * (width s * height s) \<and>
         (\<forall>j < 4 * (width s * height s). js_get (imageData s') j \<noteq> None)"
proof -
  have p: "paints (\<lambda>j x. True) {p. p < width s * height s} s s' \<and> True"
    by (rule calculateColors_paints [where K = "\<lambda>t. True", OF _ _ _ assms(1)])
       (simp_all add: pixelStep_paints)
  then have "mask s' = mask s \<and> spriteOpts s' = spriteOpts s \<and> data s' = data s"
    by (simp add: paints_def)
  moreover from painted_buffer [OF _ assms(2), of "\<lambda>j x. True" _ s'] p
  have "length (imageData s') = 4 * (width s * height s) \<and>
        (\<forall>j < 4 * (width s * height s). \<exists>x. js_get (imageData s') j = Some x \<and> True)"
    by simp
  ultimately show ?thesis by auto
qed

lemma pixel_slots_unique:
  assumes "if vert then ulen = H \<and> vlen = W else ulen = W \<and> vlen = H" and "j < 4 * (W * H)"
  shows "\<exists>!uv. fst uv < ulen \<and> snd uv < vlen \<and>
               pixelIndex vert ulen vlen (fst uv) (snd uv) \<le> j \<and>
               j < pixelIndex vert ulen vlen (fst uv) (snd uv) + 4"
proof -
  have slot: "\<And>u v. (pixelIndex vert ulen vlen u v \<le> j \<and> j < pixelIndex vert ulen vlen u v + 4)
                    \<longleftrightarrow> cellIndex vert ulen vlen u v = j div 4"
    unfolding pixelIndex_cellIndex by auto
  have "j div 4 \<in> {p. p < W * H}" using assms(2) by simp
  then have "j div 4 \<in> (\<Union>u \<in> {0..<ulen}. cellIndex vert ulen vlen u ` {0..<vlen})"
    using cells_cover [OF assms(1)] by simp
  then obtain u v where uv: "u < ulen" "v < vlen" "cellIndex vert ulen vlen u v = j div 4" by auto
  show ?thesis
  proof (rule ex1I [of _ "(u, v)"])
    show "fst (u, v) < ulen \<and> snd (u, v) < vlen \<and>
          pixelIndex vert ulen vlen (fst (u, v)) (snd (u, v)) \<le> j \<and>
          j < pixelIndex vert ulen vlen (fst (u, v)) (snd (u, v)) + 4"
      using uv slot by simp
  next
    fix uv' :: "nat \<times> nat"
    assume a: "fst uv' < ulen \<and> snd uv' < vlen \<and>
          pixelIndex vert ulen vlen (fst uv') (snd uv') \<le> j \<and>
          j < pixelIndex vert ulen vlen (fst uv') (snd uv') + 4"
    then have c: "cellIndex vert ulen vlen (fst uv') (snd uv') = cellIndex vert ulen vlen u v"
      using slot uv(3) by simp
    have "fst uv' = u \<and> snd uv' = v"
    proof (cases vert)
      case True
      then have "fst uv' * vlen + snd uv' = u * vlen + v" using c by (simp add: cellIndex_def)
      with cell_index_inj [of "snd uv'" vlen v "fst uv'" u] a uv show ?thesis by simp
    next
      case False
      then have "snd uv' * ulen + fst uv' = v * ulen + u" using c by (simp add: cellIndex_def)
      with cell_index_inj [of "fst uv'" ulen u "snd uv'" v] a uv show ?thesis by simp
    qed
    then show "uv' = (u, v)" by (simp add: prod_eq_iff)
  qed
qed

lemma plainChannel_white_black:
  "tint opts = None \<Longrightarrow>
   map (plainChannel opts val) [0, 1, 2, 3] =
     (if val = Some AlwaysBorder then [0, 0, 0, 255] else [255, 255, 255, 255])"
  by (simp add: plainChannel_def pixelChannel_def plainColor_def tintOf_def)

lemma pixelStep_plain:
  assumes "\<not> colored (spriteOpts s)" and "if vert then vlen = width s else ulen = width s"
  shows "pixelStep vert ulen vlen sat hue u v s =
           Inr (s\<lparr>imageData := storePixelData (4 * cellIndex vert ulen vlen u v)
                    (plainColor (js_get (data s) (cellIndex vert ulen vlen u v)))
                    (js_get (data s) (cellIndex vert ulen vlen u v) \<noteq> Some Empty)
                    (tintOf (spriteOpts s)) (imageData s),
                  assigned := assigned s @ pixelWrites (4 * cellIndex vert ulen vlen u v)
                    (js_get (data s) (cellIndex vert ulen vlen u v) \<noteq> Some Empty)\<rparr>)"
proof -
  let ?val = "if vert then getData v u s else getData u v s"
  have val: "?val = js_get (data s) (cellIndex vert ulen vlen u v)"
    using assms(2) by (simp add: getData_def cellIndex_def)
  have c: "cellColor u ulen sat hue ?val s = Inr (plainColor ?val, s)"
    using assms(1) unfolding cellColor_def plainColor_def by simp
  show ?thesis
    unfolding pixelStep_def Let_def pixelIndex_cellIndex c
    unfolding val tintOf_def by (simp add: storePixel_eq)
qed

lemma pixelStep_plain_paints:
  assumes nc: "\<not> colored (spriteOpts s0)"
    and geo: "if vert then vlen = width s0 else ulen = width s0"
    and K: "spriteOpts t = spriteOpts s0 \<and> data t = data s0 \<and> mask t = mask s0"
    and run: "pixelStep vert ulen vlen sat hue u v t = Inr t'"
  shows "paints (plainV (data s0) (spriteOpts s0)) {cellIndex vert ulen vlen u v} t t' \<and>
         (spriteOpts t' = spriteOpts s0 \<and> data t' = data s0 \<and> mask t' = mask s0)"
proof -
  let ?p = "cellIndex vert ulen vlen u v"
  have w: "width t = width s0" using K by (simp add: width_def)
  have "pixelStep vert ulen vlen sat hue u v t =
           Inr (t\<lparr>imageData := storePixelData (4 * ?p) (plainColor (js_get (data t) ?p))
                    (js_get (data t) ?p \<noteq> Some Empty) (tintOf (spriteOpts t)) (imageData t),
                  assigned := assigned t @ pixelWrites (4 * ?p) (js_get (data t) ?p \<noteq> Some Empty)\<rparr>)"
    by (rule pixelStep_plain) (use nc geo K w in simp_all)
  with run have t': "t' = t\<lparr>drawn := drawn t, imageData := storePixelData (4 * ?p) (plainColor (js_get (data s0) ?p))
                    (js_get (data s0) ?p \<noteq> Some Empty) (tintOf (spriteOpts s0)) (imageData t),
                  assigned := assigned t @ pixelWrites (4 * ?p) (js_get (data s0) ?p \<noteq> Some Empty)\<rparr>"
    using K by simp
  have "paints (plainV (data s0) (spriteOpts s0)) {?p} t t'"
    unfolding t'
  proof (rule paints_store)
    fix k :: nat assume "k < 4"
    then show "plainV (data s0) (spriteOpts s0) (4 * ?p + k)
                 (pixelChannel (plainColor (js_get (data s0) ?p)) (js_get (data s0) ?p \<noteq> Some Empty)
                    (tintOf (spriteOpts s0)) k)"
      by (simp add: plainV_def plainChannel_def)
  qed
  moreover have "spriteOpts t' = spriteOpts s0 \<and> data t' = data s0 \<and> mask t' = mask s0"
    using K by (simp add: t')
  ultimately show ?thesis by simp
qed

lemma calculateColors_plain:
  assumes nc: "\<not> colored (spriteOpts s)" and run: "calculateColors s = Inr s'" and "imageData s = []"
  shows "\<forall>j < 4 * (width s * height s).
           js_get (imageData s') j = Some (plainChannel (spriteOpts s) (js_get (data s) (j div 4)) (j mod 4))"
proof -
  let ?K = "\<lambda>t::Sprite. spriteOpts t = spriteOpts s \<and> data t = data s \<and> mask t = mask s"
  have "paints (plainV (data s) (spriteOpts s)) {p. p < width s * height s} s s' \<and> ?K s'"
  proof (rule calculateColors_paints [where K = ?K, OF _ _ _ run])
    fix vert ulen vlen sat hue u v t t'
    assume "if vert then vlen = width s else ulen = width s" "?K t"
      "pixelStep vert ulen vlen sat hue u v t = Inr t'"
    then show "paints (plainV (data s) (spriteOpts s)) {cellIndex vert ulen vlen u v} t t' \<and> ?K t'"
      using pixelStep_plain_paints [OF nc] by blast
  qed simp_all
  then have "\<forall>j < 4 * (width s * height s). \<exists>x. js_get (imageData s') j = Some x \<and> plainV (data s) (spriteOpts s) j x"
    using painted_buffer [OF _ assms(3)] by blast
  then show ?thesis by (simp add: plainV_def)
qed

lemma gradientStep_plain_total:
  assumes nc: "\<not> colored (spriteOpts s0)" and geo: "if vert then vlen = width s0 else ulen = width s0"
    and K: "spriteOpts (snd hs) = spriteOpts s0 \<and> mask (snd hs) = mask s0"
  shows "\<exists>hs'. gradientStep vert ulen vlen sat u hs = Inr hs' \<and>
               (spriteOpts (snd hs') = spriteOpts s0 \<and> mask (snd hs') = mask s0)"
proof -
  let ?K = "\<lambda>t::Sprite. spriteOpts t = spriteOpts s0 \<and> mask t = mask s0"
  obtain h n where hn: "nextHue (fst hs) (snd hs) = (h, (snd hs)\<lparr>drawn := n\<rparr>)"
    using nextHue_shape by blast
  have "\<exists>s2. forEach (pixelStep vert ulen vlen sat h u) [0..<vlen] ((snd hs)\<lparr>drawn := n\<rparr>) = Inr s2 \<and> ?K s2"
  proof (rule forEach_total [where K = ?K])
    fix v t assume "?K t"
    then have "\<not> colored (spriteOpts t)" "if vert then vlen = width t else ulen = width t"
      using nc geo by (simp_all add: width_def)
    from pixelStep_plain [OF this] \<open>?K t\<close>
    show "\<exists>t'. pixelStep vert ulen vlen sat h u v t = Inr t' \<and> ?K t'" by simp
  qed (use K in simp)
  then show ?thesis by (auto simp: gradientStep_def hn)
qed

lemma calculateColors_plain_total:
  assumes nc: "\<not> colored (spriteOpts s)"
  shows "\<exists>s'. calculateColors s = Inr s'"
proof -
  let ?K = "\<lambda>a::real \<times> Sprite. spriteOpts (snd a) = spriteOpts s \<and> mask (snd a) = mask s"
  let ?vert = "rng s (drawn s) > 1 / 2"
  let ?ulen = "if ?vert then height s else width s"
  let ?vlen = "if ?vert then width s else height s"
  let ?sat = "max (min (rng s (Suc (drawn s)) * saturation (spriteOpts s)) 1) 0"
  let ?hs = "(rng s (Suc (Suc (drawn s))), s\<lparr>drawn := Suc (Suc (Suc (drawn s)))\<rparr>)"
  have "\<exists>hs'. forEach (gradientStep ?vert ?ulen ?vlen ?sat) [0..<?ulen] ?hs = Inr hs' \<and> ?K hs'"
  proof (rule forEach_total [where K = ?K])
    fix u a assume "?K a"
    then show "\<exists>b. gradientStep ?vert ?ulen ?vlen ?sat u a = Inr b \<and> ?K b"
      by (intro gradientStep_plain_total [OF nc]) simp_all
  qed simp
  then show ?thesis unfolding calculateColors_unfold by auto
qed

lemma newSprite_result:
  assumes "newSprite seeded entropy w0 m opts = (ws, Inr s)"
  shows "calculateColors (buildGrid (blankSprite seeded entropy w0 m opts)) = Inr s"
  using assms unfolding newSprite_unfold by (auto split: if_splits)

lemma newSprite_sprite:
  assumes "newSprite seeded entropy w0 m opts = (ws, Inr s)"
  shows "mask s = m \<and> spriteOpts s = merge_defaults opts \<and>
         data s = data (buildGrid (blankSprite seeded entropy w0 m opts)) \<and>
         length (imageData s) = 4 * (width s * height s) \<and>
         (\<forall>j < 4 * (width s * height s). js_get (imageData s) j \<noteq> None)"
proof -
  let ?g = "buildGrid (blankSprite seeded entropy w0 m opts)"
  note b = calculateColors_buffer [OF newSprite_result [OF assms] buildGrid_blank(3)]
  have wh: "width s = width ?g" "height s = height ?g"
    using b by (simp_all add: width_def height_def)
  show ?thesis using b buildGrid_blank [of seeded entropy w0 m opts] by (simp add: wh)
qed

section \<open>The trace of assignments to the pixel buffer\<close>

lemma forEach_trace_aux:
  assumes refl: "\<And>s. R [] s s"
    and trans: "\<And>P Q s s' s''. R P s s' \<Longrightarrow> R Q s' s'' \<Longrightarrow> R (P @ Q) s s''"
  shows "(\<forall>x \<in> set xs. \<forall>s s'. K s \<longrightarrow> f x s = Inr s' \<longrightarrow> R (Pf x) s s' \<and> K s') \<Longrightarrow>
         K s \<Longrightarrow> forEach f xs s = Inr s' \<Longrightarrow> R (concat (map Pf xs)) s s' \<and> K s'"
proof (induction xs arbitrary: s)
  case Nil
  then show ?case using refl by simp
next
  case (Cons x xs)
  from Cons.prems(3) obtain t where t: "f x s = Inr t" "forEach f xs t = Inr s'"
    by (cases "f x s") simp_all
  have hd: "\<forall>s s'. K s \<longrightarrow> f x s = Inr s' \<longrightarrow> R (Pf x) s s' \<and> K s'"
    and tl: "\<forall>y \<in> set xs. \<forall>s s'. K s \<longrightarrow> f y s = Inr s' \<longrightarrow> R (Pf y) s s' \<and> K s'"
    using Cons.prems(1) by (meson list.set_intros)+
  have 1: "R (Pf x) s t \<and> K t"
    by (rule hd [rule_format, OF Cons.prems(2) t(1)])
  then have r1: "R (Pf x) s t" and k1: "K t" by simp_all
  have 2: "R (concat (map Pf xs)) t s' \<and> K s'"
    by (rule Cons.IH [OF tl k1 t(2)])
  then have r2: "R (concat (map Pf xs)) t s'" and k2: "K s'" by simp_all
  have "R (Pf x @ concat (map Pf xs)) s s'"
    by (rule trans [OF r1 r2])
  then show ?case using k2 by simp
qed

lemma forEach_trace:
  assumes step: "\<And>x s s'. x \<in> set xs \<Longrightarrow> K s \<Longrightarrow> f x s = Inr s' \<Longrightarrow> R (Pf x) s s' \<and> K s'"
    and refl: "\<And>s. R [] s s"
    and trans: "\<And>P Q s s' s''. R P s s' \<Longrightarrow> R Q s' s'' \<Longrightarrow> R (P @ Q) s s''"
    and "K s" and "forEach f xs s = Inr s'"
  shows "R (concat (map Pf xs)) s s' \<and> K s'"
proof (rule forEach_trace_aux [where R = R and K = K and f = f and Pf = Pf, OF refl trans])
  show "\<forall>x \<in> set xs. \<forall>s s'. K s \<longrightarrow> f x s = Inr s' \<longrightarrow> R (Pf x) s s' \<and> K s'"
    by (intro ballI allI impI) (rule step)
  show "K s" by fact
  show "forEach f xs s = Inr s'" by fact
qed

lemma traced_refl: "traced [] s s"
  by (simp add: traced_def)

lemma traced_trans: "traced P s s' \<Longrightarrow> traced Q s' s'' \<Longrightarrow> traced (P @ Q) s s''"
  by (simp add: traced_def)

lemma traced_drawn: "traced [] s (s\<lparr>drawn := n\<rparr>)"
  by (simp add: traced_def)

lemma pixelStep_traced:
  assumes "pixelStep vert ulen vlen sat hue u v s = Inr s'"
    and "if vert then vlen = width s else ulen = width s"
  shows "traced [cellIndex vert ulen vlen u v] s s'"
proof -
  have val: "(if vert then getData v u s else getData u v s) = js_get (data s) (cellIndex vert ulen vlen u v)"
    using assms(2) by (simp add: getData_def cellIndex_def)
  from pixelStep_shape [OF assms(1)] show ?thesis
    unfolding val by (auto simp: traced_def cellWrites_def)
qed

lemma gradientStep_traced:
  assumes w: "if vert then vlen = width (snd hs) else ulen = width (snd hs)"
    and run: "gradientStep vert ulen vlen sat u hs = Inr hs'"
  shows "traced (map (cellIndex vert ulen vlen u) [0..<vlen]) (snd hs) (snd hs')"
proof -
  let ?K = "\<lambda>t::Sprite. mask t = mask (snd hs)"
  obtain h n where hn: "nextHue (fst hs) (snd hs) = (h, (snd hs)\<lparr>drawn := n\<rparr>)"
    using nextHue_shape by blast
  let ?s1 = "(snd hs)\<lparr>drawn := n\<rparr>"
  from run obtain s2 where s2: "forEach (pixelStep vert ulen vlen sat h u) [0..<vlen] ?s1 = Inr s2"
    and hs': "hs' = (h, s2)"
    by (auto simp: gradientStep_def hn split: sum.splits)
  have K1: "?K ?s1" by simp
  have "traced (concat (map (\<lambda>v. [cellIndex vert ulen vlen u v]) [0..<vlen])) ?s1 s2 \<and> ?K s2"
  proof (rule forEach_trace [where R = traced and K = ?K, OF _ _ _ K1 s2])
    fix v and s s' :: Sprite
    assume k: "mask s = mask (snd hs)" and p: "pixelStep vert ulen vlen sat h u v s = Inr s'"
    from k w have "if vert then vlen = width s else ulen = width s" by (simp add: width_def)
    from pixelStep_traced [OF p this]
    show "traced [cellIndex vert ulen vlen u v] s s' \<and> mask s' = mask (snd hs)"
      using k by (simp add: traced_def)
  next
    fix s show "traced [] s s" by (rule traced_refl)
  next
    fix P Q s s' s''
    assume "traced P s s'" "traced Q s' s''"
    then show "traced (P @ Q) s s''" by (rule traced_trans)
  qed
  moreover have "concat (map (\<lambda>v. [cellIndex vert ulen vlen u v]) [0..<vlen]) =
                 map (cellIndex vert ulen vlen u) [0..<vlen]"
    by (induction vlen) simp_all
  ultimately have p: "traced (map (cellIndex vert ulen vlen u) [0..<vlen]) ?s1 s2" by simp
  have "traced ([] @ map (cellIndex vert ulen vlen u) [0..<vlen]) (snd hs) s2"
    by (rule traced_trans [OF traced_drawn p])
  then show ?thesis using hs' by simp
qed

lemma gradientLoop_traced:
  assumes w: "if vert then vlen = width (snd hs) else ulen = width (snd hs)"
    and run: "forEach (gradientStep vert ulen vlen sat) [0..<n] hs = Inr hs'"
  shows "traced (cellsUpTo vert ulen vlen n) (snd hs) (snd hs')"
proof -
  let ?K = "\<lambda>a::real \<times> Sprite. mask (snd a) = mask (snd hs)"
  have K: "?K hs" by simp
  have "traced (concat (map (\<lambda>u. map (cellIndex vert ulen vlen u) [0..<vlen]) [0..<n]))
          (snd hs) (snd hs') \<and> ?K hs'"
  proof (rule forEach_trace [where R = "\<lambda>P a b. traced P (snd a) (snd b)" and K = ?K, OF _ _ _ K run])
    fix u and a b :: "real \<times> Sprite"
    assume k: "mask (snd a) = mask (snd hs)" and g: "gradientStep vert ulen vlen sat u a = Inr b"
    from k w have "if vert then vlen = width (snd a) else ulen = width (snd a)"
      by (simp add: width_def)
    from gradientStep_traced [OF this g]
    show "traced (map (cellIndex vert ulen vlen u) [0..<vlen]) (snd a) (snd b) \<and>
          mask (snd b) = mask (snd hs)"
      using k by (simp add: traced_def)
  next
    fix a :: "real \<times> Sprite" show "traced [] (snd a) (snd a)" by (rule traced_refl)
  next
    fix P Q and a b c :: "real \<times> Sprite"
    assume "traced P (snd a) (snd b)" "traced Q (snd b) (snd c)"
    then show "traced (P @ Q) (snd a) (snd c)" by (rule traced_trans)
  qed
  then show ?thesis by (simp add: cellsUpTo_def)
qed

lemma calculateColors_traced:
  assumes "calculateColors s = Inr s'"
  shows "traced (cellsUpTo (rng s (drawn s) > 1 / 2)
                   (if rng s (drawn s) > 1 / 2 then height s else width s)
                   (if rng s (drawn s) > 1 / 2 then width s else height s)
                   (if rng s (drawn s) > 1 / 2 then height s else width s)) s s'"
proof -
  let ?vert = "rng s (drawn s) > 1 / 2"
  let ?ulen = "if ?vert then height s else width s"
  let ?vlen = "if ?vert then width s else height s"
  let ?sat = "max (min (rng s (Suc (drawn s)) * saturation (spriteOpts s)) 1) 0"
  let ?s3 = "s\<lparr>drawn := Suc (Suc (Suc (drawn s)))\<rparr>"
  let ?hs = "(rng s (Suc (Suc (drawn s))), ?s3)"
  from assms obtain hs' where loop: "forEach (gradientStep ?vert ?ulen ?vlen ?sat) [0..<?ulen] ?hs = Inr hs'"
    and s': "s' = snd hs'"
    unfolding calculateColors_unfold by (auto split: sum.splits)
  have w: "if ?vert then ?vlen = width (snd ?hs) else ?ulen = width (snd ?hs)"
    by (simp add: width_def)
  have p: "traced (cellsUpTo ?vert ?ulen ?vlen ?ulen) ?s3 s'"
    using gradientLoop_traced [OF w loop] s' by simp
  have "traced ([] @ cellsUpTo ?vert ?ulen ?vlen ?ulen) s s'"
    by (rule traced_trans [OF traced_drawn p])
  then show ?thesis by simp
qed

lemma count_list_distinct: "distinct xs \<Longrightarrow> count_list xs x = (if x \<in> set xs then 1 else 0)"
  by (induction xs) auto

lemma cellIndex_inj:
  assumes "u < ulen" "u' < ulen" "v < vlen" "v' < vlen"
    and "cellIndex vert ulen vlen u v = cellIndex vert ulen vlen u' v'"
  shows "u = u' \<and> v = v'"
proof (cases vert)
  case True
  with assms(5) have "u * vlen + v = u' * vlen + v'" by (simp add: cellIndex_def)
  from cell_index_inj [OF assms(3,4) this] show ?thesis by simp
next
  case False
  with assms(5) have "v * ulen + u = v' * ulen + u'" by (simp add: cellIndex_def)
  from cell_index_inj [OF assms(1,2) this] show ?thesis by simp
qed

lemma set_cellsUpTo:
  "set (cellsUpTo vert ulen vlen n) = (\<Union>u \<in> {0..<n}. cellIndex vert ulen vlen u ` {0..<vlen})"
  by (simp add: cellsUpTo_def)

lemma cellsUpTo_Suc:
  "cellsUpTo vert ulen vlen (Suc n) =
     cellsUpTo vert ulen vlen n @ map (cellIndex vert ulen vlen n) [0..<vlen]"
  by (simp add: cellsUpTo_def)

lemma distinct_cellsUpTo: "n \<le> ulen \<Longrightarrow> distinct (cellsUpTo vert ulen vlen n)"
proof (induction n)
  case 0
  show ?case by (simp add: cellsUpTo_def)
next
  case (Suc n)
  have n: "n < ulen" using Suc.prems by simp
  have a: "distinct (cellsUpTo vert ulen vlen n)" using Suc by simp
  have b: "distinct (map (cellIndex vert ulen vlen n) [0..<vlen])"
    unfolding distinct_map
  proof (intro conjI inj_onI)
    fix v v'
    assume "v \<in> set [0..<vlen]" "v' \<in> set [0..<vlen]"
      and "cellIndex vert ulen vlen n v = cellIndex vert ulen vlen n v'"
    then show "v = v'" using cellIndex_inj [OF n n, of v vlen v' vert] by simp
  qed simp
  have c: "set (cellsUpTo vert ulen vlen n) \<inter> set (map (cellIndex vert ulen vlen n) [0..<vlen]) = {}"
  proof (rule ccontr)
    assume "set (cellsUpTo vert ulen vlen n) \<inter> set (map (cellIndex vert ulen vlen n) [0..<vlen]) \<noteq> {}"
    then obtain p where "p \<in> set (cellsUpTo vert ulen vlen n)"
        and "p \<in> set (map (cellIndex vert ulen vlen n) [0..<vlen])"
      by blast
    then obtain u v v' where uv: "u < n" "v < vlen" "v' < vlen"
        "cellIndex vert ulen vlen u v = cellIndex vert ulen vlen n v'"
      unfolding set_cellsUpTo by fastforce
    from uv(1) n have "u < ulen" by simp
    from cellIndex_inj [OF this n uv(2,3,4)] uv(1) show False by simp
  qed
  show ?case unfolding cellsUpTo_Suc using a b c by simp
qed

lemma count_cells:
  assumes "if vert then ulen = H \<and> vlen = W else ulen = W \<and> vlen = H"
  shows "count_list (cellsUpTo vert ulen vlen ulen) p = (if p < W * H then 1 else 0)"
proof -
  have "set (cellsUpTo vert ulen vlen ulen) = {p. p < W * H}"
    unfolding set_cellsUpTo by (rule cells_cover [OF assms])
  then show ?thesis
    using count_list_distinct [OF distinct_cellsUpTo [of ulen ulen vert vlen], of p] by simp
qed

lemma count_cellWrites:
  "count_list (cellWrites d c) j = (if j div 4 = c then writeCount d j else 0)"
proof (cases "j div 4 = c")
  case True
  then have j: "j = 4 * c + j mod 4" by (metis div_mult_mod_eq mult.commute)
  have "j mod 4 < 4" by simp
  then consider "j mod 4 = 0" | "j mod 4 = 1" | "j mod 4 = 2" | "j mod 4 = 3" by linarith
  then show ?thesis
  proof cases
    case 1 with j True show ?thesis by (simp add: cellWrites_def pixelWrites_def writeCount_def)
  next
    case 2 with j True show ?thesis by (simp add: cellWrites_def pixelWrites_def writeCount_def)
  next
    case 3 with j True show ?thesis by (simp add: cellWrites_def pixelWrites_def writeCount_def)
  next
    case 4 with j True show ?thesis by (simp add: cellWrites_def pixelWrites_def writeCount_def)
  qed
next
  case False
  then have "j \<noteq> 4 * c" "j \<noteq> 4 * c + 1" "j \<noteq> 4 * c + 2" "j \<noteq> 4 * c + 3" by auto
  with False show ?thesis by (simp add: cellWrites_def pixelWrites_def)
qed

lemma count_concat_cells:
  "count_list (concat (map (cellWrites d) cs)) j = count_list cs (j div 4) * writeCount d j"
  by (induction cs) (simp_all add: count_cellWrites)

lemma calculateColors_assigned:
  assumes "calculateColors s = Inr s'" and "assigned s = []"
  shows "count_list (assigned s') j =
           (if j < 4 * (width s * height s) then writeCount (data s) j else 0)"
proof -
  let ?vert = "rng s (drawn s) > 1 / 2"
  let ?ulen = "if ?vert then height s else width s"
  let ?vlen = "if ?vert then width s else height s"
  have "assigned s' = concat (map (cellWrites (data s)) (cellsUpTo ?vert ?ulen ?vlen ?ulen))"
    using calculateColors_traced [OF assms(1)] assms(2) by (simp add: traced_def)
  moreover have "count_list (cellsUpTo ?vert ?ulen ?vlen ?ulen) (j div 4) =
                 (if j div 4 < width s * height s then 1 else 0)"
    by (rule count_cells) simp
  moreover have "j div 4 < width s * height s \<longleftrightarrow> j < 4 * (width s * height s)"
    by auto
  ultimately show ?thesis by (simp add: count_concat_cells)
qed

lemma buildGrid_blank_assigned:
  "assigned (buildGrid (blankSprite seeded entropy w0 m opts)) = []"
  using keepsImage_buildGrid unfolding keepsImage_def by (simp add: blankSprite_def)

lemma newSprite_assigned:
  assumes "newSprite seeded entropy w0 m opts = (ws, Inr s)"
  shows "count_list (assigned s) j =
           (if j < 4 * (width s * height s) then writeCount (data s) j else 0)"
proof -
  let ?g = "buildGrid (blankSprite seeded entropy w0 m opts)"
  note b = newSprite_sprite [OF assms]
  have wh: "width ?g = width s" "height ?g = height s"
    using b buildGrid_blank(1) [of seeded entropy w0 m opts] by (simp_all add: width_def height_def)
  have d: "data ?g = data s" using b by simp
  from calculateColors_assigned [OF newSprite_result [OF assms] buildGrid_blank_assigned, of j]
  show ?thesis by (simp add: wh d)
qed

section \<open>Runs that differ in edge brightness or in the environment\<close>

lemma variant_simps [simp]:
  "mask (variant e w s) = mask s"
  "data (variant e w s) = data s"
  "imageData (variant e w s) = imageData s"
  "rng (variant e w s) = rng s"
  "drawn (variant e w s) = drawn s"
  "assigned (variant e w s) = assigned s"
  "world (variant e w s) = w"
  "width (variant e w s) = width s"
  "height (variant e w s) = height s"
  "colored (spriteOpts (variant e w s)) = colored (spriteOpts s)"
  "edgeBrightness (spriteOpts (variant e w s)) = e"
  "colorVariations (spriteOpts (variant e w s)) = colorVariations (spriteOpts s)"
  "brightnessNoise (spriteOpts (variant e w s)) = brightnessNoise (spriteOpts s)"
  "saturation (spriteOpts (variant e w s)) = saturation (spriteOpts s)"
  "tint (spriteOpts (variant e w s)) = tint (spriteOpts s)"
  "randomSampleCallback (spriteOpts (variant e w s)) = randomSampleCallback (spriteOpts s)"
  by (simp_all add: variant_def width_def height_def)

lemma variant_getData [simp]: "getData x y (variant e w s) = getData x y s"
  by (simp add: getData_def)

lemma variant_setData: "setData x y v (variant e w s) = variant e w (setData x y v s)"
  by (simp add: setData_def variant_def width_def)

lemma variant_drawn: "(variant e w s)\<lparr>drawn := n\<rparr> = variant e w (s\<lparr>drawn := n\<rparr>)"
  by (simp add: variant_def)

lemma variant_world: "variant e w (s\<lparr>world := w'\<rparr>) = variant e w s"
  by (simp add: variant_def)

lemma variant_storePixel: "storePixel i c t tm (variant e w s) = variant e w (storePixel i c t tm s)"
  by (simp add: storePixel_eq variant_def)

lemma fold_comm: "(\<And>x s. f x (h s) = h (f x s)) \<Longrightarrow> fold f xs (h s) = h (fold f xs s)"
  by (induction xs arbitrary: s) simp_all

lemma variant_applyMask: "applyMask (variant e w s) = variant e w (applyMask s)"
  unfolding applyMask_def Let_def variant_simps
  by (intro fold_comm variant_setData)

lemma variant_mirrorX: "mirrorX (variant e w s) = variant e w (mirrorX s)"
  unfolding mirrorX_def Let_def variant_simps
  by (intro fold_comm) (simp add: variant_setData)

lemma variant_mirrorY: "mirrorY (variant e w s) = variant e w (mirrorY s)"
  unfolding mirrorY_def Let_def variant_simps
  by (intro fold_comm) (simp add: variant_setData)

lemma variant_mark: "mark c i (variant e w s) = variant e w (mark c i s)"
  by (simp add: mark_def variant_def)

lemma variant_isBody [simp]: "isBody x y (variant e w s) = isBody x y s"
  by (simp add: isBody_def)

lemma variant_edgeStep: "edgeStep n h x y (variant e w s) = variant e w (edgeStep n h x y s)"
  by (simp add: edgeStep_marks variant_mark)

lemma variant_generateEdges: "generateEdges (variant e w s) = variant e w (generateEdges s)"
  unfolding generateEdges_def Let_def variant_simps
  by (intro fold_comm variant_edgeStep)

lemma alikeI: "t = variant e w s \<Longrightarrow> (sameWorld \<Longrightarrow> w = world s) \<Longrightarrow> alike sameWorld e s t"
  by (auto simp: alike_def)

lemma alikeD: "alike sameWorld e s t \<Longrightarrow> t = variant e (world t) s"
  by (simp add: alike_def)

lemma dataOnly_world: "dataOnly f \<Longrightarrow> world (f s) = world s"
  by (metis dataOnlyD Sprite.select_convs(8) Sprite.surjective Sprite.update_convs(3))

lemma alike_comm:
  assumes comm: "\<And>w. f (variant e w s) = variant e w (f s)"
    and frame: "world (f s) = world s"
    and a: "alike sameWorld e s t"
  shows "alike sameWorld e (f s) (f t)"
proof (rule alikeI [where w = "world t"])
  have "f t = f (variant e (world t) s)" using alikeD [OF a] by simp
  then show "f t = variant e (world t) (f s)" by (simp add: comm)
  show "world t = world (f s)" if sameWorld using a that by (simp add: alike_def frame)
qed

lemma alike_mask: "alike sameWorld e s t \<Longrightarrow> mask t = mask s"
  by (metis alikeD variant_simps(1))

lemma alike_opts: "alike sameWorld e s t \<Longrightarrow> randomSampleCallback (spriteOpts t) = randomSampleCallback (spriteOpts s)"
  by (metis alikeD variant_simps(16))

lemma sampleCell_alike:
  assumes a: "alike sameWorld e s t" and p: "sameWorld \<or> worldFree (spriteOpts s)"
  shows "alike sameWorld e (sampleCell x y s) (sampleCell x y t)"
proof (cases "randomSampleCallback (spriteOpts s)")
  case None
  have c: "sampleCell x y (variant e w s) = variant e w (sampleCell x y s)" for w
    unfolding sampleCell_def defaultRandomSample_def rng_next_def Let_def
    by (simp add: None variant_drawn variant_setData)
  have f: "world (sampleCell x y s) = world s"
    unfolding sampleCell_def defaultRandomSample_def rng_next_def Let_def
    by (simp add: None setData_def)
  show ?thesis by (rule alike_comm [OF c f a])
next
  case (Some cb)
  let ?w = "world t"
  have t: "t = variant e ?w s" by (rule alikeD [OF a])
  have 1: "sampleCell x y s = setData x y (Some (fst (cb x y (world s)))) (s\<lparr>world := snd (cb x y (world s))\<rparr>)"
    unfolding sampleCell_def by (simp add: Some case_prod_beta)
  have "sampleCell x y (variant e ?w s) =
          setData x y (Some (fst (cb x y ?w))) ((variant e ?w s)\<lparr>world := snd (cb x y ?w)\<rparr>)"
    unfolding sampleCell_def by (simp add: Some case_prod_beta)
  also have "(variant e ?w s)\<lparr>world := snd (cb x y ?w)\<rparr> = variant e (snd (cb x y ?w)) s"
    by (simp add: variant_def)
  finally have 2: "sampleCell x y t = variant e (snd (cb x y ?w)) (setData x y (Some (fst (cb x y ?w))) s)"
    using t by (simp add: variant_setData)
  have r: "fst (cb x y ?w) = fst (cb x y (world s))" and w: "sameWorld \<longrightarrow> ?w = world s"
    using p a by (auto simp: worldFree_def Some alike_def)
  show ?thesis
  proof (rule alikeI [where w = "snd (cb x y ?w)"])
    show "sampleCell x y t = variant e (snd (cb x y ?w)) (sampleCell x y s)"
      unfolding 1 2 r by (simp add: variant_def setData_def width_def)
    show "snd (cb x y ?w) = world (sampleCell x y s)" if sameWorld
      using w that unfolding 1 by (simp add: setData_def)
  qed
qed

lemma fold_rel:
  assumes "\<And>x s t. R s t \<Longrightarrow> R (f x s) (g x t)" and "R s t"
  shows "R (fold f xs s) (fold g xs t)"
  using assms(2) by (induction xs arbitrary: s t) (simp_all add: assms(1))

lemma generateRandomSample_alike:
  assumes a: "alike sameWorld e s t" and p: "sameWorld \<or> worldFree (spriteOpts s)"
  shows "alike sameWorld e (generateRandomSample s) (generateRandomSample t)"
proof -
  let ?R = "\<lambda>a b. alike sameWorld e a b \<and> spriteOpts a = spriteOpts s"
  have cell: "?R (sampleCell x y a) (sampleCell x y b)" if "?R a b" for x y a b
  proof
    show "alike sameWorld e (sampleCell x y a) (sampleCell x y b)"
      by (rule sampleCell_alike) (use that p in simp_all)
    show "spriteOpts (sampleCell x y a) = spriteOpts s"
      using keepsImage_sampleCell [of x y] that by (simp add: keepsImage_def)
  qed
  have row: "?R (fold (\<lambda>x. sampleCell x y) xs a) (fold (\<lambda>x. sampleCell x y) xs b)" if "?R a b" for y xs a b
    by (rule fold_rel [where R = ?R, OF _ that]) (rule cell)
  have wh: "width t = width s" "height t = height s"
    using alike_mask [OF a] by (simp_all add: width_def height_def)
  have start: "?R s t" using a by simp
  have "?R (fold (\<lambda>y. fold (\<lambda>x. sampleCell x y) [0..<width s]) [0..<height s] s)
           (fold (\<lambda>y. fold (\<lambda>x. sampleCell x y) [0..<width s]) [0..<height s] t)"
    by (rule fold_rel [where R = ?R, OF _ start]) (rule row)
  then show ?thesis by (simp add: generateRandomSample_def wh)
qed

lemma buildGrid_alike:
  assumes a: "alike sameWorld e s t" and p: "sameWorld \<or> worldFree (spriteOpts s)"
  shows "alike sameWorld e (buildGrid s) (buildGrid t)"
proof -
  have o1: "spriteOpts (applyMask s) = spriteOpts s"
    using keepsImage_dataOnly [OF dataOnly_applyMask] by (simp add: keepsImage_def)
  have 1: "alike sameWorld e (applyMask s) (applyMask t)"
    by (rule alike_comm [OF variant_applyMask dataOnly_world [OF dataOnly_applyMask] a])
  have 2: "alike sameWorld e (generateRandomSample (applyMask s)) (generateRandomSample (applyMask t))"
    by (rule generateRandomSample_alike [OF 1]) (use p o1 in simp)
  let ?s2 = "generateRandomSample (applyMask s)" and ?t2 = "generateRandomSample (applyMask t)"
  let ?s3 = "if mask_mirrorX (mask ?s2) then mirrorX ?s2 else ?s2"
  let ?t3 = "if mask_mirrorX (mask ?t2) then mirrorX ?t2 else ?t2"
  have 3: "alike sameWorld e ?s3 ?t3"
    using alike_comm [OF variant_mirrorX dataOnly_world [OF dataOnly_mirrorX] 2] 2 alike_mask [OF 2]
    by simp
  let ?s4 = "if mask_mirrorY (mask ?s3) then mirrorY ?s3 else ?s3"
  let ?t4 = "if mask_mirrorY (mask ?t3) then mirrorY ?t3 else ?t3"
  have 4: "alike sameWorld e ?s4 ?t4"
    using alike_comm [OF variant_mirrorY dataOnly_world [OF dataOnly_mirrorY] 3] 3 alike_mask [OF 3]
    by simp
  have "alike sameWorld e (generateEdges ?s4) (generateEdges ?t4)"
    by (rule alike_comm [OF variant_generateEdges dataOnly_world [OF dataOnly_generateEdges] 4])
  then show ?thesis unfolding buildGrid_def Let_def .
qed

lemma forEach_comm:
  assumes "\<And>x s. x \<in> set xs \<Longrightarrow> K s \<Longrightarrow> f x (h s) = map_sum id h (f x s)"
    and "\<And>x s s'. x \<in> set xs \<Longrightarrow> K s \<Longrightarrow> f x s = Inr s' \<Longrightarrow> K s'"
    and "K s"
  shows "forEach f xs (h s) = map_sum id h (forEach f xs s)"
  using assms
proof (induction xs arbitrary: s)
  case Nil
  show ?case by simp
next
  case (Cons x xs)
  have 1: "f x (h s) = map_sum id h (f x s)"
    by (rule Cons.prems(1)) (simp_all add: Cons.prems(3))
  show ?case
  proof (cases "f x s")
    case (Inl err)
    then show ?thesis by (simp add: 1)
  next
    case (Inr t)
    have k: "K t" by (rule Cons.prems(2) [of x s]) (simp_all add: Cons.prems(3) Inr)
    have "forEach f xs (h t) = map_sum id h (forEach f xs t)"
    proof (rule Cons.IH [OF _ _ k])
      fix y s assume a: "y \<in> set xs" "K s"
      show "f y (h s) = map_sum id h (f y s)"
        by (rule Cons.prems(1)) (use a in simp_all)
    next
      fix y s s' assume a: "y \<in> set xs" "K s" "f y s = Inr s'"
      show "K s'"
        by (rule Cons.prems(2) [of y s]) (use a in simp_all)
    qed
    then show ?thesis by (simp add: 1 Inr id_def)
  qed
qed

lemma variant_cellColor:
  assumes "keepsEdge e s"
  shows "cellColor u ulen sat hue val (variant e w s) =
           map_sum id (map_prod id (variant e w)) (cellColor u ulen sat hue val s)"
proof (cases "colored (spriteOpts s)")
  case True
  then have e: "e = edgeBrightness (spriteOpts s)" using assms by (simp add: keepsEdge_def)
  show ?thesis
    unfolding cellColor_def rng_next_def Let_def
    by (simp add: True e [symmetric] variant_drawn split: option.splits)
next
  case False
  then show ?thesis
    unfolding cellColor_def by simp
qed

lemma variant_pixelStep:
  assumes "keepsEdge e s"
  shows "pixelStep vert ulen vlen sat hue u v (variant e w s) =
           map_sum id (variant e w) (pixelStep vert ulen vlen sat hue u v s)"
  unfolding pixelStep_def Let_def variant_cellColor [OF assms] variant_getData variant_simps
  by (cases "cellColor u ulen sat hue (if vert then getData v u s else getData u v s) s")
     (auto simp: variant_storePixel)

lemma pixelStep_keepsEdge:
  "pixelStep vert ulen vlen sat hue u v s = Inr s' \<Longrightarrow> keepsEdge e s' = keepsEdge e s"
  using pixelStep_paints [of vert ulen vlen sat hue u v s s'] by (simp add: paints_def keepsEdge_def)

lemma variant_nextHue:
  "nextHue hue (variant e w s) = (fst (nextHue hue s), variant e w (snd (nextHue hue s)))"
  by (simp add: nextHue_def isNewColor_def rng_next_def Let_def variant_drawn)

lemma nextHue_keepsEdge: "keepsEdge e (snd (nextHue hue s)) = keepsEdge e s"
  by (simp add: nextHue_def isNewColor_def rng_next_def Let_def keepsEdge_def)

lemma variant_pixelLoop:
  assumes "keepsEdge e s"
  shows "forEach (pixelStep vert ulen vlen sat hue u) vs (variant e w s) =
           map_sum id (variant e w) (forEach (pixelStep vert ulen vlen sat hue u) vs s)"
proof (rule forEach_comm [where K = "keepsEdge e"])
  fix v and t :: Sprite assume "keepsEdge e t"
  then show "pixelStep vert ulen vlen sat hue u v (variant e w t) =
             map_sum id (variant e w) (pixelStep vert ulen vlen sat hue u v t)"
    by (rule variant_pixelStep)
next
  fix v and t t' :: Sprite
  assume "keepsEdge e t" "pixelStep vert ulen vlen sat hue u v t = Inr t'"
  then show "keepsEdge e t'" using pixelStep_keepsEdge by blast
qed (rule assms)

lemma pixelLoop_keepsEdge:
  "forEach (pixelStep vert ulen vlen sat hue u) vs s = Inr s' \<Longrightarrow> keepsEdge e s' = keepsEdge e s"
proof (induction vs arbitrary: s)
  case Nil
  then show ?case by simp
next
  case (Cons v vs)
  then obtain t where t: "pixelStep vert ulen vlen sat hue u v s = Inr t"
      "forEach (pixelStep vert ulen vlen sat hue u) vs t = Inr s'"
    by (cases "pixelStep vert ulen vlen sat hue u v s") simp_all
  from Cons.IH [OF t(2)] pixelStep_keepsEdge [OF t(1)] show ?case by simp
qed

lemma variant_gradientStep:
  assumes "keepsEdge e (snd hs)"
  shows "gradientStep vert ulen vlen sat u (fst hs, variant e w (snd hs)) =
           map_sum id (map_prod id (variant e w)) (gradientStep vert ulen vlen sat u hs)"
proof -
  let ?s1 = "snd (nextHue (fst hs) (snd hs))"
  have k: "keepsEdge e ?s1" using assms by (simp add: nextHue_keepsEdge)
  show ?thesis
    unfolding gradientStep_def
    by (simp add: variant_nextHue case_prod_beta variant_pixelLoop [OF k] split: sum.splits)
qed

lemma gradientStep_keepsEdge:
  assumes "gradientStep vert ulen vlen sat u hs = Inr hs'"
  shows "keepsEdge e (snd hs') = keepsEdge e (snd hs)"
proof -
  from assms obtain s2 where
    "forEach (pixelStep vert ulen vlen sat (fst (nextHue (fst hs) (snd hs))) u) [0..<vlen]
       (snd (nextHue (fst hs) (snd hs))) = Inr s2" and "snd hs' = s2"
    by (auto simp: gradientStep_def case_prod_beta split: sum.splits)
  then show ?thesis using pixelLoop_keepsEdge nextHue_keepsEdge by metis
qed

lemma variant_calculateColors:
  assumes "keepsEdge e s"
  shows "calculateColors (variant e w s) = map_sum id (variant e w) (calculateColors s)"
proof -
  let ?vert = "rng s (drawn s) > 1 / 2"
  let ?ulen = "if ?vert then height s else width s"
  let ?vlen = "if ?vert then width s else height s"
  let ?sat = "max (min (rng s (Suc (drawn s)) * saturation (spriteOpts s)) 1) 0"
  let ?s3 = "s\<lparr>drawn := Suc (Suc (Suc (drawn s)))\<rparr>"
  let ?hue = "rng s (Suc (Suc (drawn s)))"
  let ?h = "map_prod id (variant e w) :: real \<times> Sprite \<Rightarrow> real \<times> Sprite"
  have k3: "keepsEdge e ?s3" using assms by (simp add: keepsEdge_def)
  have "forEach (gradientStep ?vert ?ulen ?vlen ?sat) [0..<?ulen] (?h (?hue, ?s3)) =
        map_sum id ?h (forEach (gradientStep ?vert ?ulen ?vlen ?sat) [0..<?ulen] (?hue, ?s3))"
  proof (rule forEach_comm [where K = "\<lambda>a. keepsEdge e (snd a)"])
    fix u and a :: "real \<times> Sprite" assume "keepsEdge e (snd a)"
    from variant_gradientStep [OF this]
    show "gradientStep ?vert ?ulen ?vlen ?sat u (?h a) = map_sum id ?h (gradientStep ?vert ?ulen ?vlen ?sat u a)"
      by (simp add: map_prod_def case_prod_beta)
  next
    fix u and a b :: "real \<times> Sprite"
    assume "keepsEdge e (snd a)" "gradientStep ?vert ?ulen ?vlen ?sat u a = Inr b"
    then show "keepsEdge e (snd b)" using gradientStep_keepsEdge by blast
  qed (use k3 in simp)
  then have loop: "forEach (gradientStep ?vert ?ulen ?vlen ?sat) [0..<?ulen] (?hue, variant e w ?s3) =
        map_sum id ?h (forEach (gradientStep ?vert ?ulen ?vlen ?sat) [0..<?ulen] (?hue, ?s3))"
    by simp
  have 1: "calculateColors (variant e w s) =
        (case forEach (gradientStep ?vert ?ulen ?vlen ?sat) [0..<?ulen] (?hue, variant e w ?s3) of
           Inl err \<Rightarrow> Inl err | Inr hs \<Rightarrow> Inr (snd hs))"
    unfolding calculateColors_unfold [of "variant e w s"] variant_simps variant_drawn
    by (rule refl)
  have 2: "calculateColors s =
        (case forEach (gradientStep ?vert ?ulen ?vlen ?sat) [0..<?ulen] (?hue, ?s3) of
           Inl err \<Rightarrow> Inl err | Inr hs \<Rightarrow> Inr (snd hs))"
    by (rule calculateColors_unfold)
  show ?thesis
    unfolding 1 2 loop
    by (cases "forEach (gradientStep ?vert ?ulen ?vlen ?sat) [0..<?ulen] (?hue, ?s3)") simp_all
qed

lemma imageData_variant: "map_sum id imageData (map_sum id (variant e w) r) = map_sum id imageData r"
  by (cases r) simp_all

lemma alike_pipeline:
  assumes a: "alike sameWorld e s t" and p: "sameWorld \<or> worldFree (spriteOpts s)"
    and k: "keepsEdge e s"
  shows "map_sum id imageData (calculateColors (buildGrid t)) =
         map_sum id imageData (calculateColors (buildGrid s))"
proof -
  have o: "spriteOpts (buildGrid s) = spriteOpts s"
    using keepsImage_buildGrid by (simp add: keepsImage_def)
  have kg: "keepsEdge e (buildGrid s)" using k by (simp add: keepsEdge_def o)
  have "buildGrid t = variant e (world (buildGrid t)) (buildGrid s)"
    by (rule alikeD [OF buildGrid_alike [OF a p]])
  then have "calculateColors (buildGrid t) =
             map_sum id (variant e (world (buildGrid t))) (calculateColors (buildGrid s))"
    using variant_calculateColors [OF kg] by metis
  then show ?thesis by (simp add: imageData_variant)
qed

lemma newSprite_alike:
  assumes a: "alike sameWorld e (blankSprite seeded1 entropy1 w1 m opts1) (blankSprite seeded2 entropy2 w2 m opts2)"
    and p: "sameWorld \<or> worldFree (merge_defaults opts1)"
    and k: "colored (merge_defaults opts1) \<longrightarrow> e = edgeBrightness (merge_defaults opts1)"
  shows "map_sum id imageData (snd (newSprite seeded2 entropy2 w2 m opts2)) =
         map_sum id imageData (snd (newSprite seeded1 entropy1 w1 m opts1))"
proof -
  have o: "spriteOpts (blankSprite seeded1 entropy1 w1 m opts1) = merge_defaults opts1"
    by (simp add: blankSprite_def)
  show ?thesis
    unfolding newSprite_unfold
    using alike_pipeline [OF a] p k by (simp add: o keepsEdge_def)
qed

section \<open>A worked example\<close>

text \<open>
  The mask of one column \<open>Empty, RandomlyBorderBody, Empty\<close>, default options, and a
  generator that always returns 0: the sampled body cell becomes a border.
\<close>

lemma columnBlank_eq:
  "columnBlank = \<lparr> mask = columnMask, spriteOpts = merge_defaults noOptions,
       data = [Some AlwaysBorder, Some AlwaysBorder, Some AlwaysBorder], imageData = [],
       rng = zeroStream, drawn = 0, assigned = [], world = 0 \<rparr>"
  by (simp add: columnBlank_def blankSprite_def columnMask_def SeedRandom_def merge_defaults_def
      noOptions_def eval_nat_numeral)

lemma column_applyMask:
  "applyMask columnBlank = columnBlank\<lparr>data := [Some Empty, Some RandomlyBorderBody, Some Empty]\<rparr>"
  by (simp add: columnBlank_eq applyMask_def columnMask_def setData_def width_def js_set_def js_get_def
      eval_nat_numeral)

lemma column_sample:
  "generateRandomSample (columnBlank\<lparr>data := [Some Empty, Some RandomlyBorderBody, Some Empty]\<rparr>) =
   columnBlank\<lparr>data := [Some Empty, Some AlwaysBorder, Some Empty], drawn := 1\<rparr>"
  by (simp add: columnBlank_eq generateRandomSample_def sampleCell_def defaultRandomSample_def
      rng_next_def zeroStream_def merge_defaults_def noOptions_def columnMask_def
      setData_def getData_def width_def height_def js_set_def js_get_def eval_nat_numeral Let_def)

lemma column_edges:
  "generateEdges (columnBlank\<lparr>data := [Some Empty, Some AlwaysBorder, Some Empty], drawn := 1\<rparr>) =
   columnBlank\<lparr>data := [Some Empty, Some AlwaysBorder, Some Empty], drawn := 1\<rparr>"
  by (simp add: columnBlank_eq generateEdges_def edgeStep_marks isBody_def columnMask_def
      getData_def width_def height_def js_get_def eval_nat_numeral)

lemma column_buildGrid:
  "buildGrid columnBlank = columnBlank\<lparr>data := [Some Empty, Some AlwaysBorder, Some Empty], drawn := 1\<rparr>"
proof -
  have m: "mask_mirrorX (mask (columnBlank\<lparr>data := [Some Empty, Some AlwaysBorder, Some Empty], drawn := 1\<rparr>)) = False"
       "mask_mirrorY (mask (columnBlank\<lparr>data := [Some Empty, Some AlwaysBorder, Some Empty], drawn := 1\<rparr>)) = False"
    by (simp_all add: columnBlank_eq columnMask_def)
  show ?thesis
    unfolding buildGrid_def Let_def column_applyMask column_sample m if_False column_edges
    by (rule refl)
qed

lemma colored_merge: "colored (merge_defaults opts) = (opt_colored opts = Some True)"
  by (cases "opt_colored opts") (simp_all add: merge_defaults_def)

lemma column_newSprite:
  "\<exists>s. newSprite (\<lambda>k. zeroStream) zeroStream 0 columnMask noOptions = ([], Inr s) \<and>
       data s = [Some Empty, Some AlwaysBorder, Some Empty] \<and> width s = 1 \<and> height s = 3"
proof -
  let ?g = "buildGrid columnBlank"
  have "\<not> colored (spriteOpts ?g)"
    unfolding column_buildGrid
    by (simp add: columnBlank_eq merge_defaults_def noOptions_def)
  then obtain s where s: "calculateColors ?g = Inr s"
    using calculateColors_plain_total by blast
  have n: "newSprite (\<lambda>k. zeroStream) zeroStream 0 columnMask noOptions = ([], Inr s)"
    unfolding newSprite_unfold columnBlank_def [symmetric] s
    by (simp add: columnMask_def)
  from newSprite_sprite [OF n] have "mask s = columnMask" "data s = data ?g"
    by (simp_all add: columnBlank_def)
  then have "data s = [Some Empty, Some AlwaysBorder, Some Empty]" "width s = 1" "height s = 3"
    by (simp_all add: column_buildGrid width_def height_def columnMask_def)
  with n show ?thesis by blast
qed

lemma newSprite_plain_slot:
  assumes "newSprite seeded entropy w0 m opts = (ws, Inr s)"
    and "opt_colored opts \<noteq> Some True" and "p < width s * height s" and "k < 4"
  shows "js_get (imageData s) (4 * p + k) = Some (plainChannel (merge_defaults opts) (js_get (data s) p) k)"
proof -
  let ?g = "buildGrid (blankSprite seeded entropy w0 m opts)"
  note b = newSprite_sprite [OF assms(1)]
  have run: "calculateColors ?g = Inr s" by (rule newSprite_result [OF assms(1)])
  have o: "spriteOpts ?g = merge_defaults opts" by (rule buildGrid_blank)
  have nc: "\<not> colored (spriteOpts ?g)" using assms(2) by (simp add: o colored_merge)
  have wh: "width ?g = width s" "height ?g = height s"
    using b buildGrid_blank(1) [of seeded entropy w0 m opts] by (simp_all add: width_def height_def)
  have d: "data ?g = data s" using b by simp
  have "4 * p + k < 4 * (width ?g * height ?g)" using assms(3,4) by (simp add: wh)
  with calculateColors_plain [OF nc run buildGrid_blank(3)]
  have "js_get (imageData s) (4 * p + k) =
          Some (plainChannel (spriteOpts ?g) (js_get (data ?g) ((4 * p + k) div 4)) ((4 * p + k) mod 4))"
    by blast
  with assms(4) show ?thesis by (simp add: d o)
qed

lemma point_buildGrid:
  "data (buildGrid (blankSprite (\<lambda>k. zeroStream) zeroStream w pointMask flagOptions)) =
     [Some (if w = 0 then AlwaysBorder else RandomlyEmptyBody)]"
  by (simp add: buildGrid_def blankSprite_def pointMask_def flagOptions_def noOptions_def
      merge_defaults_def flagCallback_def applyMask_def generateRandomSample_def sampleCell_def
      generateEdges_def edgeStep_marks isBody_def mark_def setData_def getData_def
      width_def height_def js_set_def js_get_def)

lemma point_newSprite:
  "\<exists>s. newSprite (\<lambda>k. zeroStream) zeroStream w pointMask flagOptions = ([], Inr s) \<and>
       js_get (imageData s) 0 = Some (if w = 0 then 0 else 255)"
proof -
  let ?b = "blankSprite (\<lambda>k. zeroStream) zeroStream w pointMask flagOptions"
  have nc: "opt_colored flagOptions \<noteq> Some True"
    by (simp add: flagOptions_def noOptions_def)
  then have "\<not> colored (spriteOpts (buildGrid ?b))"
    by (simp add: buildGrid_blank colored_merge)
  then obtain s where s: "calculateColors (buildGrid ?b) = Inr s"
    using calculateColors_plain_total by blast
  have n: "newSprite (\<lambda>k. zeroStream) zeroStream w pointMask flagOptions = ([], Inr s)"
    unfolding newSprite_unfold s by (simp add: pointMask_def)
  from newSprite_sprite [OF n] have m: "mask s = pointMask"
    and d: "data s = [Some (if w = 0 then AlwaysBorder else RandomlyEmptyBody)]"
    by (simp_all add: point_buildGrid)
  have wh: "width s = 1" "height s = 1"
    by (simp_all add: m width_def height_def pointMask_def)
  have t: "tint (merge_defaults flagOptions) = None"
    by (simp add: merge_defaults_def flagOptions_def noOptions_def)
  from newSprite_plain_slot [OF n nc, of 0 0]
  have "js_get (imageData s) 0 = Some (plainChannel (merge_defaults flagOptions) (js_get (data s) 0) 0)"
    by (simp add: wh)
  then have "js_get (imageData s) 0 = Some (if w = 0 then 0 else 255)"
    by (simp add: d js_get_def plainChannel_def plainColor_def pixelChannel_def tintOf_def t)
  with n show ?thesis by blast
qed

section \<open>Claims\<close>




text \<open>
  Claim C5 says that for some structural grid the in-place pass of \<^verbatim>\<open>generateEdges\<close>
  and the two-buffer variant end in different grids. The code does not behave so: a
  write only turns an \<open>Empty\<close> cell into \<open>AlwaysBorder\<close>, neither of which is a body
  cell, so a write made earlier in the pass never changes which cells act as bodies and
  never unmarks a cell. Amended claim C5: for every sprite, whatever its grid holds, the
  in-place pass and the two-buffer variant produce the same sprite.
\<close>

theorem C5_inplace_equals_two_buffer: "generateEdges s = generateEdgesSnapshot s"
  by (rule generateEdges_is_snapshot)

text \<open>The claim as stated, refuted: no sprite tells the two variants apart.\<close>

theorem C5_no_directional_bias: "\<not> (\<exists>s. generateEdges s \<noteq> generateEdgesSnapshot s)"
  by (simp add: generateEdges_is_snapshot)

text \<open>
  Claim C8 (edge containment): in a structural grid (a full grid of \<open>width * height\<close>
  cells, each holding one of the four structural codes), every cell that holds
  \<open>AlwaysBorder\<close> after \<^verbatim>\<open>generateEdges\<close> but held \<open>Empty\<close> before it is 4-adjacent to
  a cell of the grid that held \<open>RandomlyEmptyBody\<close>, \<open>RandomlyBorderBody\<close> or
  \<open>AlwaysBorder\<close> at the start of the pass.
\<close>

theorem C8_edge_containment:
  assumes grid: "length (data s) = width s * height s"
      and codes: "set (data s) \<subseteq> structuralCodes"
      and xy: "x < width s" "y < height s"
      and after: "getData x y (generateEdges s) = Some AlwaysBorder"
      and before: "getData x y s = Some Empty"
  shows "\<exists>x' y'. x' < width s \<and> y' < height s \<and> adjacent x y x' y' \<and>
           getData x' y' s \<in> {Some RandomlyEmptyBody, Some RandomlyBorderBody, Some AlwaysBorder}"
proof -
  let ?j = "y * width s + x"
  have w: "width (generateEdges s) = width s"
    by (rule dataOnly_width [OF dataOnly_generateEdges])
  have "js_get (data (generateEdges s)) ?j = Some AlwaysBorder"
    using after by (simp add: getData_def w)
  moreover have "js_get (data s) ?j = Some Empty"
    using before by (simp add: getData_def)
  ultimately obtain x0 y0 where b: "x0 < width s" "y0 < height s" "isBody x0 y0 s"
      "?j \<in> edgeTargets (width s) (width s) (height s) x0 y0"
    unfolding generateEdges_get by (auto split: if_splits)
  have adj: "adjacent x y x0 y0"
    using edgeTargets_adjacent [OF xy b(1) b(2) b(4)] .
  obtain c where c: "c \<in> set (data s)" "getData x0 y0 s = c"
    using getData_in_set [OF grid b(1) b(2)] by blast
  then have "c \<in> structuralCodes" using codes by blast
  with b(3) c have "getData x0 y0 s \<in> {Some RandomlyEmptyBody, Some RandomlyBorderBody, Some AlwaysBorder}"
    by (auto simp: isBody_def structuralCodes_def)
  with b adj show ?thesis by blast
qed

text \<open>Witness: the column \<open>Empty, RandomlyBorderBody, Empty\<close>, at its top cell.\<close>

theorem C8_edge_containment_witness:
  "getData 0 0 (generateEdges columnSprite) = Some AlwaysBorder \<and> getData 0 0 columnSprite = Some Empty \<and>
   (\<exists>x' y'. x' < width columnSprite \<and> y' < height columnSprite \<and> adjacent 0 0 x' y' \<and>
       getData x' y' columnSprite \<in> {Some RandomlyEmptyBody, Some RandomlyBorderBody, Some AlwaysBorder})"
proof -
  have w: "width (generateEdges columnSprite) = width columnSprite"
    by (rule dataOnly_width [OF dataOnly_generateEdges])
  have 1: "length (data columnSprite) = width columnSprite * height columnSprite"
    by (simp add: columnSprite_def width_def height_def)
  have 2: "set (data columnSprite) \<subseteq> structuralCodes"
    by (simp add: columnSprite_def structuralCodes_def)
  have 3: "0 < width columnSprite" "0 < height columnSprite"
    by (simp_all add: columnSprite_def width_def height_def)
  have 4: "getData 0 0 (generateEdges columnSprite) = Some AlwaysBorder"
    by (simp add: getData_def w columnSprite_edges js_get_def)
  have 5: "getData 0 0 columnSprite = Some Empty"
    by (simp add: getData_def columnSprite_def js_get_def)
  from C8_edge_containment [OF 1 2 3 4 5] 4 5 show ?thesis by blast
qed

text \<open>
  Claim C6 (non-coloured palette): when the construction completes with
  \<^verbatim>\<open>colored\<close> false (given so, or defaulted) and no tint, every pixel \<open>p\<close> of the
  buffer is \<open>(0, 0, 0, 255)\<close> if the cell \<open>p\<close> of the final structural grid holds
  \<open>AlwaysBorder\<close>, and \<open>(255, 255, 255, 255)\<close> otherwise, in particular for
  \<open>RandomlyEmptyBody\<close>, \<open>RandomlyBorderBody\<close> and \<open>Empty\<close>; no other value occurs.
\<close>

theorem C6_plain_palette:
  assumes "newSprite seeded entropy w0 m opts = (ws, Inr s)"
    and "opt_colored opts \<noteq> Some True" and "opt_tint opts = None"
    and "p < width s * height s"
  shows "map (js_get (imageData s)) [4 * p, 4 * p + 1, 4 * p + 2, 4 * p + 3] =
           (if js_get (data s) p = Some AlwaysBorder
            then [Some 0, Some 0, Some 0, Some 255]
            else [Some 255, Some 255, Some 255, Some 255])"
proof -
  let ?g = "buildGrid (blankSprite seeded entropy w0 m opts)"
  note b = newSprite_sprite [OF assms(1)]
  have run: "calculateColors ?g = Inr s" by (rule newSprite_result [OF assms(1)])
  have o: "spriteOpts ?g = merge_defaults opts" by (rule buildGrid_blank)
  have nc: "\<not> colored (spriteOpts ?g)" using assms(2) by (simp add: o colored_merge)
  have t: "tint (spriteOpts ?g) = None" using assms(3) by (simp add: o merge_defaults_def)
  have wh: "width ?g = width s" "height ?g = height s"
    using b buildGrid_blank(1) [of seeded entropy w0 m opts] by (simp_all add: width_def height_def)
  have d: "data ?g = data s" using b by simp
  have slot: "js_get (imageData s) (4 * p + k) = Some (plainChannel (spriteOpts ?g) (js_get (data s) p) k)"
    if "k < 4" for k
  proof -
    have "4 * p + k < 4 * (width ?g * height ?g)" using assms(4) that by (simp add: wh)
    with calculateColors_plain [OF nc run buildGrid_blank(3)]
    have "js_get (imageData s) (4 * p + k) =
            Some (plainChannel (spriteOpts ?g) (js_get (data ?g) ((4 * p + k) div 4)) ((4 * p + k) mod 4))"
      by blast
    with that show ?thesis by (simp add: d)
  qed
  have "map (js_get (imageData s)) [4 * p, 4 * p + 1, 4 * p + 2, 4 * p + 3] =
        map Some (map (plainChannel (spriteOpts ?g) (js_get (data s) p)) [0, 1, 2, 3])"
    using slot [of 0] slot [of 1] slot [of 2] slot [of 3] by simp
  then show ?thesis
    unfolding plainChannel_white_black [OF t] by simp
qed

text \<open>Witness: the one-column example, its first (empty) and second (border) pixel.\<close>

theorem C6_plain_palette_witness:
  "\<exists>ws s. newSprite (\<lambda>k. zeroStream) zeroStream 0 columnMask noOptions = (ws, Inr s) \<and>
          js_get (data s) 0 = Some Empty \<and>
          map (js_get (imageData s)) [0, 1, 2, 3] = [Some 255, Some 255, Some 255, Some 255] \<and>
          js_get (data s) 1 = Some AlwaysBorder \<and>
          map (js_get (imageData s)) [4, 5, 6, 7] = [Some 0, Some 0, Some 0, Some 255]"
proof -
  obtain s where s: "newSprite (\<lambda>k. zeroStream) zeroStream 0 columnMask noOptions = ([], Inr s)"
    and d: "data s = [Some Empty, Some AlwaysBorder, Some Empty]" and wh: "width s = 1" "height s = 3"
    using column_newSprite by blast
  have o: "opt_colored noOptions \<noteq> Some True" "opt_tint noOptions = None"
    by (simp_all add: noOptions_def)
  have c: "js_get (data s) 0 = Some Empty" "js_get (data s) 1 = Some AlwaysBorder"
    by (simp_all add: d js_get_def)
  from C6_plain_palette [OF s o, of 0] C6_plain_palette [OF s o, of 1] c wh
  have "map (js_get (imageData s)) [0, 1, 2, 3] = [Some 255, Some 255, Some 255, Some 255]"
       "map (js_get (imageData s)) [4, 5, 6, 7] = [Some 0, Some 0, Some 0, Some 255]"
    by (simp_all add: numeral_2_eq_2)
  with s c show ?thesis
    by (intro exI [of _ "[]"] exI [of _ s]) (simp only: simp_thms)
qed

text \<open>
  Claim C7 says that every index of the pixel buffer is written exactly once. The code
  does not behave so: for a cell that is not \<open>Empty\<close> the loop body of
  \<^verbatim>\<open>calculateColors\<close> assigns the three colour slots and then assigns each of them again
  with the compound assignment \<^verbatim>\<open>*=\<close> of the tint. Amended claim C7: whenever the
  constructor completes and \<open>width * height * 4\<close> is below \<open>2^32\<close> (a length a JavaScript
  array can have), the sprite has the effective dimensions of its mask, the pixel buffer
  has length exactly \<open>width * height * 4\<close> with no hole in it, and \<^verbatim>\<open>calculateColors\<close>
  assigns to no index outside that range, once to every alpha slot and to every slot of
  an \<open>Empty\<close> cell, and twice to each colour slot of every other cell, whichever
  gradient axis the generator chooses.
\<close>

theorem C7_buffer_size:
  assumes "newSprite seeded entropy w0 m opts = (ws, Inr s)"
    and "width s * height s * 4 < 2 ^ 32"
  shows "width s = mask_width m * (if mask_mirrorX m then 2 else 1) \<and>
         height s = mask_height m * (if mask_mirrorY m then 2 else 1) \<and>
         length (imageData s) = width s * height s * 4 \<and>
         (\<forall>j < width s * height s * 4. js_get (imageData s) j \<noteq> None) \<and>
         (\<forall>j. count_list (assigned s) j =
                (if j < width s * height s * 4
                 then (if j mod 4 = 3 \<or> js_get (data s) (j div 4) = Some Empty then 1 else 2)
                 else 0))"
proof -
  note b = newSprite_sprite [OF assms(1)]
  have dims: "width s = mask_width m * (if mask_mirrorX m then 2 else 1)"
             "height s = mask_height m * (if mask_mirrorY m then 2 else 1)"
    using b by (simp_all add: width_def height_def)
  have len: "length (imageData s) = width s * height s * 4"
    using b by simp
  have holes: "\<forall>j < width s * height s * 4. js_get (imageData s) j \<noteq> None"
    using b by (simp add: mult.commute)
  have writes: "\<forall>j. count_list (assigned s) j =
                (if j < width s * height s * 4
                 then (if j mod 4 = 3 \<or> js_get (data s) (j div 4) = Some Empty then 1 else 2)
                 else 0)"
    using newSprite_assigned [OF assms(1)] by (simp add: writeCount_def mult.commute)
  from dims len holes writes show ?thesis by blast
qed

text \<open>
  Witness: the one-column example, a buffer of 12 entries; its middle cell is a border,
  the other two are empty.
\<close>

theorem C7_buffer_size_witness:
  "\<exists>ws s. newSprite (\<lambda>k. zeroStream) zeroStream 0 columnMask noOptions = (ws, Inr s) \<and>
          width s = 1 \<and> height s = 3 \<and> length (imageData s) = 12 \<and>
          js_get (imageData s) 11 \<noteq> None \<and>
          count_list (assigned s) 0 = 1 \<and> count_list (assigned s) 4 = 2 \<and>
          count_list (assigned s) 7 = 1 \<and> count_list (assigned s) 12 = 0"
proof -
  obtain s where s: "newSprite (\<lambda>k. zeroStream) zeroStream 0 columnMask noOptions = ([], Inr s)"
    and d: "data s = [Some Empty, Some AlwaysBorder, Some Empty]" and wh: "width s = 1" "height s = 3"
    using column_newSprite by blast
  have small: "width s * height s * 4 < 2 ^ 32" by (simp add: wh)
  note c = C7_buffer_size [OF s small, unfolded wh]
  from c have len: "length (imageData s) = 12" by simp
  from c have "\<forall>j < 12. js_get (imageData s) j \<noteq> None" by simp
  then have hole: "js_get (imageData s) 11 \<noteq> None" by simp
  from c have n: "count_list (assigned s) j =
      (if j < 12 then (if j mod 4 = 3 \<or> js_get (data s) (j div 4) = Some Empty then 1 else 2) else 0)" for j
    by simp
  have "count_list (assigned s) 0 = 1" "count_list (assigned s) 4 = 2"
       "count_list (assigned s) 7 = 1" "count_list (assigned s) 12 = 0"
    by (simp_all add: n d js_get_def)
  with s wh len hole show ?thesis by blast
qed

text \<open>
  The claim as stated, refuted: in the same example the red slot of the border cell,
  index 4, is assigned twice.
\<close>

theorem C7_colour_slot_assigned_twice:
  "map_sum id (\<lambda>s. count_list (assigned s) 4)
     (snd (newSprite (\<lambda>k. zeroStream) zeroStream 0 columnMask noOptions)) = Inr 2"
proof -
  obtain s where s: "newSprite (\<lambda>k. zeroStream) zeroStream 0 columnMask noOptions = ([], Inr s)"
    and d: "data s = [Some Empty, Some AlwaysBorder, Some Empty]" and wh: "width s = 1" "height s = 3"
    using column_newSprite by blast
  from newSprite_assigned [OF s, of 4] have "count_list (assigned s) 4 = 2"
    by (simp add: wh d writeCount_def js_get_def)
  then show ?thesis by (simp add: s)
qed



end
